theory Spec2Isabelle
  imports Complex_Main "HOL-Library.Sublist"
begin

section \<open>Retry executor (\<open>withRetry\<close> in trigger/generate-faq.ts)\<close>

text \<open>
  The error classes of the task file: \<open>FAQGenerationError\<close> and \<open>DatabaseError\<close> carry a
  message and a category; every other thrown value is an \<open>OtherError\<close> (no category field is
  inspected for it).  The optional \<open>cause\<close> field is never read and is left out.
\<close>

datatype ErrorCategory = TRANSIENT | PERMANENT | VALIDATION

datatype js_error =
    FAQGenerationError string ErrorCategory
  | DatabaseError string ErrorCategory
  | OtherError string

fun is_permanent :: "js_error \<Rightarrow> bool" where
  "is_permanent (FAQGenerationError m c) = (c = PERMANENT)"
| "is_permanent (DatabaseError m c) = (c = PERMANENT)"
| "is_permanent (OtherError m) = False"

text \<open>
  A run of \<open>withRetry\<close>: what the promise settles to (\<open>Inr\<close> the value returned by the
  operation, \<open>Inl\<close> the thrown \<open>lastError\<close>, which is \<open>undefined\<close> (\<open>None\<close>) when the loop body
  never ran), how many times the operation was called, and the delays passed to
  \<open>setTimeout\<close>, in order.
\<close>

record 'a retry_run =
  outcome :: "js_error option + 'a"
  attempts :: nat
  delays :: "real list"

definition backoff :: "real \<Rightarrow> (nat \<Rightarrow> real) \<Rightarrow> nat \<Rightarrow> real" where
  "backoff delayMs random attempt =
     (let jitter = random attempt * 1000
      in delayMs * 2 ^ (attempt - 1) + jitter)"

text \<open>
  The \<open>for\<close> loop.  \<open>operation k\<close> is what the \<open>k\<close>-th call of the operation settles to and
  \<open>random k\<close> the value \<open>Math.random()\<close> returns in iteration \<open>k\<close> (at most one draw per
  iteration).  Numbers are reals: rounding of doubles is not modelled.
\<close>

function withRetry_loop ::
  "(nat \<Rightarrow> js_error + 'a) \<Rightarrow> (nat \<Rightarrow> real) \<Rightarrow> nat \<Rightarrow> real \<Rightarrow> nat \<Rightarrow> js_error option \<Rightarrow> real list
    \<Rightarrow> 'a retry_run" where
  "withRetry_loop operation random maxAttempts delayMs attempt lastError slept =
     (if attempt \<le> maxAttempts then
        (case operation attempt of
           Inr v \<Rightarrow> \<lparr>outcome = Inr v, attempts = attempt, delays = slept\<rparr>
         | Inl error \<Rightarrow>
             if is_permanent error then
               \<lparr>outcome = Inl (Some error), attempts = attempt, delays = slept\<rparr>
             else if attempt = maxAttempts then
               \<lparr>outcome = Inl (Some error), attempts = attempt, delays = slept\<rparr>
             else
               withRetry_loop operation random maxAttempts delayMs (attempt + 1) (Some error)
                 (slept @ [backoff delayMs random attempt]))
      else \<lparr>outcome = Inl lastError, attempts = attempt - 1, delays = slept\<rparr>)"
  by pat_completeness auto
termination
  by (relation "measure (\<lambda>(operation, random, maxAttempts, delayMs, attempt, lastError, slept).
        Suc maxAttempts - attempt)") auto

declare withRetry_loop.simps [simp del]

definition withRetry ::
  "(nat \<Rightarrow> js_error + 'a) \<Rightarrow> ErrorCategory \<Rightarrow> nat \<Rightarrow> real \<Rightarrow> (nat \<Rightarrow> real) \<Rightarrow> 'a retry_run" where
  "withRetry operation errorCategory maxAttempts delayMs random =
     withRetry_loop operation random maxAttempts delayMs 1 None []"

text \<open>
  The category a thrown value carries, as read by the \<open>instanceof\<close> test and the
  \<open>category\<close> field.
\<close>

fun error_category :: "js_error \<Rightarrow> ErrorCategory option" where
  "error_category (FAQGenerationError m c) = Some c"
| "error_category (DatabaseError m c) = Some c"
| "error_category (OtherError m) = None"

text \<open>Operations and jitter sequences used as concrete inputs below.\<close>

definition op_validation_fails :: "nat \<Rightarrow> js_error + unit" where
  "op_validation_fails k = Inl (FAQGenerationError ''schema mismatch'' VALIDATION)"


definition op_permanent_second :: "nat \<Rightarrow> js_error + unit" where
  "op_permanent_second k =
     (if k = 1 then Inl (FAQGenerationError ''schema mismatch'' VALIDATION)
      else Inl (DatabaseError ''missing credential'' PERMANENT))"

definition no_jitter :: "nat \<Rightarrow> real" where
  "no_jitter k = 0"



section \<open>JavaScript numbers and strings\<close>

text \<open>
  A JavaScript number that results from a division: the division does not raise on a zero
  divisor, it yields \<open>NaN\<close> for \<open>0 / 0\<close> and an infinity for any other dividend.  A finite
  double is the real number it stands for.  Arithmetic on doubles is the exact operation
  followed by rounding to the nearest double; the rounding function belongs to the platform
  and is the parameter \<open>fl\<close> wherever a sum or a quotient is computed.  (The sign of zero
  is not modelled, and no quotient below is large enough to overflow.)
\<close>

datatype js_number = Num real | NaN | PosInfinity | NegInfinity

definition js_div :: "(real \<Rightarrow> real) \<Rightarrow> real \<Rightarrow> real \<Rightarrow> js_number" where
  "js_div fl a b =
     (if b = 0 then (if a = 0 then NaN else if 0 < a then PosInfinity else NegInfinity)
      else Num (fl (a / b)))"

text \<open>\<open>Math.round\<close>: the nearest integer, halves rounded up; \<open>NaN\<close> and the infinities stay.\<close>

fun Math_round :: "js_number \<Rightarrow> js_number" where
  "Math_round (Num x) = Num (of_int \<lfloor>x + 1 / 2\<rfloor>)"
| "Math_round NaN = NaN"
| "Math_round PosInfinity = PosInfinity"
| "Math_round NegInfinity = NegInfinity"

text \<open>\<open>s.startsWith(p)\<close>, \<open>s.endsWith(p)\<close> and \<open>s.includes(p)\<close> (\<open>js_includes\<close>).\<close>

fun startsWith :: "string \<Rightarrow> string \<Rightarrow> bool" where
  "startsWith s [] = True"
| "startsWith [] (p # ps) = False"
| "startsWith (c # cs) (p # ps) = (c = p \<and> startsWith cs ps)"

definition endsWith :: "string \<Rightarrow> string \<Rightarrow> bool" where
  "endsWith s p = startsWith (rev s) (rev p)"

fun js_includes :: "string \<Rightarrow> string \<Rightarrow> bool" where
  "js_includes [] p = (p = [])"
| "js_includes (c # cs) p = (startsWith (c # cs) p \<or> js_includes cs p)"

text \<open>
  \<open>s.trim()\<close>.  A string is the list of the bytes of its UTF-8 encoding, so a character
  that JavaScript counts as white space or as a line terminator is the byte sequence that
  encodes it: U+0009 to U+000D, U+0020, U+00A0, U+1680, U+2000 to U+200A, U+2028, U+2029,
  U+202F, U+205F, U+3000 and U+FEFF.
\<close>

definition white_space :: "string list" where
  "white_space =
     [[CHR 0x09], [CHR 0x0A], [CHR 0x0B], [CHR 0x0C], [CHR 0x0D], [CHR 0x20],
      [CHR 0xC2, CHR 0xA0],
      [CHR 0xE1, CHR 0x9A, CHR 0x80],
      [CHR 0xE2, CHR 0x80, CHR 0x80], [CHR 0xE2, CHR 0x80, CHR 0x81],
      [CHR 0xE2, CHR 0x80, CHR 0x82], [CHR 0xE2, CHR 0x80, CHR 0x83],
      [CHR 0xE2, CHR 0x80, CHR 0x84], [CHR 0xE2, CHR 0x80, CHR 0x85],
      [CHR 0xE2, CHR 0x80, CHR 0x86], [CHR 0xE2, CHR 0x80, CHR 0x87],
      [CHR 0xE2, CHR 0x80, CHR 0x88], [CHR 0xE2, CHR 0x80, CHR 0x89],
      [CHR 0xE2, CHR 0x80, CHR 0x8A],
      [CHR 0xE2, CHR 0x80, CHR 0xA8], [CHR 0xE2, CHR 0x80, CHR 0xA9],
      [CHR 0xE2, CHR 0x80, CHR 0xAF],
      [CHR 0xE2, CHR 0x81, CHR 0x9F],
      [CHR 0xE3, CHR 0x80, CHR 0x80],
      [CHR 0xEF, CHR 0xBB, CHR 0xBF]]"

text \<open>Remove, from the front, any of the given sequences for as long as one is there.\<close>

function strip_prefixes :: "string list \<Rightarrow> string \<Rightarrow> string" where
  "strip_prefixes ws s =
     (case find (\<lambda>w. w \<noteq> [] \<and> startsWith s w) ws of
        None \<Rightarrow> s
      | Some w \<Rightarrow> strip_prefixes ws (drop (length w) s))"
  by pat_completeness auto
termination
proof (relation "measure (\<lambda>(ws, s). length s)")
  show "wf (measure (\<lambda>(ws, s). length s))" by simp
next
  fix ws :: "string list" and s w :: string
  assume "find (\<lambda>w. w \<noteq> [] \<and> startsWith s w) ws = Some w"
  then have w: "w \<noteq> []" "startsWith s w" by (auto simp: find_Some_iff)
  then have "s \<noteq> []" by (cases w; cases s) auto
  with w show "((ws, drop (length w) s), ws, s) \<in> measure (\<lambda>(ws, s). length s)"
    by simp
qed

declare strip_prefixes.simps [simp del]

definition trim :: "string \<Rightarrow> string" where
  "trim s = rev (strip_prefixes (map rev white_space) (rev (strip_prefixes white_space s)))"


section \<open>FAQ generation task (\<open>generateFAQTask\<close> in trigger/generate-faq.ts)\<close>

text \<open>
  \<open>estimateTokens\<close>: \<open>Math.ceil(text.length / charsPerToken)\<close>, written with integer division
  (the same value for a positive divisor; the only call passes the default 4).
\<close>

definition estimateTokens :: "string \<Rightarrow> nat \<Rightarrow> nat" where
  "estimateTokens text charsPerToken = (length text + charsPerToken - 1) div charsPerToken"

text \<open>
  Parsed JSON, as \<open>JSON.parse\<close> returns it.  The parser is a library function and is a
  parameter of the task below; an object is the list of its keys and values.
\<close>

datatype json =
    JNull
  | JBool bool
  | JNum real
  | JStr string
  | JArr "json list"
  | JObj "(string \<times> json) list"

record FAQMetadata =
  relevance :: real
  category :: string
  meta_keywords :: "string list"

record FAQ =
  question :: string
  answer :: string
  confidence :: real
  sourceUrl :: string
  sourcePage :: string
  metadata :: "FAQMetadata option"

text \<open>
  The zod schemas \<open>FAQSchema\<close> and \<open>FAQResponseSchema\<close>: \<open>None\<close> stands for the \<open>ZodError\<close>
  that \<open>parse\<close> throws.  Unknown keys are dropped, a missing \<open>metadata\<close> key is accepted,
  and \<open>z.string().url()\<close> is the parameter \<open>is_url\<close>.
\<close>

definition json_string :: "json \<Rightarrow> string option" where
  "json_string j = (case j of JStr s \<Rightarrow> Some s | _ \<Rightarrow> None)"

definition json_number :: "json \<Rightarrow> real option" where
  "json_number j = (case j of JNum x \<Rightarrow> Some x | _ \<Rightarrow> None)"

definition json_field :: "json \<Rightarrow> string \<Rightarrow> json option" where
  "json_field j k = (case j of JObj kvs \<Rightarrow> map_of kvs k | _ \<Rightarrow> None)"

definition is_object :: "json \<Rightarrow> bool" where
  "is_object j = (case j of JObj kvs \<Rightarrow> True | _ \<Rightarrow> False)"

definition FAQ_categories :: "string list" where
  "FAQ_categories = [''product'', ''service'', ''technical'', ''support'', ''pricing'', ''other'']"

definition MetadataSchema_parse :: "json \<Rightarrow> FAQMetadata option" where
  "MetadataSchema_parse j =
     (case (Option.bind (json_field j ''relevance'') json_number,
            Option.bind (json_field j ''category'') json_string,
            json_field j ''keywords'') of
        (Some r, Some c, Some (JArr ks)) \<Rightarrow>
          (case those (map json_string ks) of
             Some kws \<Rightarrow>
               if 0 \<le> r \<and> r \<le> 1 \<and> c \<in> set FAQ_categories
               then Some \<lparr>relevance = r, category = c, meta_keywords = kws\<rparr>
               else None
           | None \<Rightarrow> None)
      | _ \<Rightarrow> None)"

definition FAQSchema_parse :: "(string \<Rightarrow> bool) \<Rightarrow> json \<Rightarrow> FAQ option" where
  "FAQSchema_parse is_url j =
     (case (Option.bind (json_field j ''question'') json_string,
            Option.bind (json_field j ''answer'') json_string,
            Option.bind (json_field j ''confidence'') json_number,
            Option.bind (json_field j ''sourceUrl'') json_string,
            Option.bind (json_field j ''sourcePage'') json_string) of
        (Some q, Some a, Some c, Some u, Some p) \<Rightarrow>
          if 10 \<le> length q \<and> length q \<le> 200 \<and> 20 \<le> length a \<and> length a \<le> 1000
             \<and> 0 \<le> c \<and> c \<le> 1 \<and> is_url u
          then (case json_field j ''metadata'' of
                  None \<Rightarrow>
                    Some \<lparr>question = q, answer = a, confidence = c, sourceUrl = u,
                          sourcePage = p, metadata = None\<rparr>
                | Some m \<Rightarrow>
                    (case MetadataSchema_parse m of
                       Some md \<Rightarrow>
                         Some \<lparr>question = q, answer = a, confidence = c, sourceUrl = u,
                               sourcePage = p, metadata = Some md\<rparr>
                     | None \<Rightarrow> None))
          else None
      | _ \<Rightarrow> None)"

definition FAQResponseSchema_parse :: "(string \<Rightarrow> bool) \<Rightarrow> json \<Rightarrow> FAQ list option" where
  "FAQResponseSchema_parse is_url j =
     (case json_field j ''faqs'' of
        Some (JArr js) \<Rightarrow> those (map (FAQSchema_parse is_url) js)
      | _ \<Rightarrow> None)"

text \<open>
  \<open>text.replace(/```json\n?|\n?```/g, '')\<close>: scanning from the left, an opening fence
  with its optional line feed, or a closing fence with its optional leading line feed, is
  deleted; the first alternative is tried first.
\<close>

definition fence :: string where
  "fence = [CHR 0x60, CHR 0x60, CHR 0x60]"

fun strip_fences :: "string \<Rightarrow> string" where
  "strip_fences [] = []"
| "strip_fences (c # cs) =
     (if startsWith (c # cs) (fence @ ''json'' @ [CHR 0x0A]) then strip_fences (drop 7 cs)
      else if startsWith (c # cs) (fence @ ''json'') then strip_fences (drop 6 cs)
      else if startsWith (c # cs) (CHR 0x0A # fence) then strip_fences (drop 3 cs)
      else if startsWith (c # cs) fence then strip_fences (drop 2 cs)
      else c # strip_fences cs)"

text \<open>The pages handed to the task and its options (\<open>generateFAQSchema\<close>).\<close>

record ScrapedPage =
  url :: string
  title :: string
  content :: string
  headings :: "string list"
  links :: "string list"

record FAQOptions =
  maxFaqsPerPage :: real
  minConfidence :: real
  preferredCategories :: "string list option"

record FAQPayload =
  pages :: "ScrapedPage list"
  scrapeId :: string
  userId :: "string option"
  options :: "FAQOptions option"

record FAQStats =
  totalFaqs :: nat
  processedChunks :: nat
  totalTokens :: nat
  averageConfidence :: js_number
  processingTimeMs :: int
  model :: string

record FAQTaskResult =
  faq_success :: bool
  faq_faqs :: "FAQ list option"
  faq_text :: "string option"
  faq_responses :: "string list option"
  faq_stats :: "FAQStats option"
  faq_error :: "string option"

text \<open>
  What lies outside the repository: \<open>generateText\<close> (given the combined content; the fixed
  system prompt, instructions, temperature and token limit are part of it) returns the
  model's text or throws an error with a message; \<open>JSON_parse\<close> returns the parsed value or
  throws a \<open>SyntaxError\<close> with a message; \<open>zod_message\<close> is the message of the \<open>ZodError\<close> for
  a value that fails the schema; \<open>now k\<close> is the value of the \<open>k\<close>-th call of \<open>Date.now()\<close>;
  \<open>round_double\<close> is the rounding of a real to the nearest double.
\<close>

record FAQEnv =
  generateText :: "string \<Rightarrow> string + string"
  JSON_parse :: "string \<Rightarrow> string + json"
  is_url :: "string \<Rightarrow> bool"
  zod_message :: "json \<Rightarrow> string"
  now :: "nat \<Rightarrow> int"
  round_double :: "real \<Rightarrow> real"

definition page_block :: "ScrapedPage \<Rightarrow> string" where
  "page_block page =
     [CHR 0x0A] @ ''Page: '' @ title page @ [CHR 0x0A] @ ''URL: '' @ url page @ [CHR 0x0A]
     @ ''Content:'' @ [CHR 0x0A] @ content page @ [CHR 0x0A] @ ''---''"

fun join :: "string \<Rightarrow> string list \<Rightarrow> string" where
  "join sep [] = []"
| "join sep [s] = s"
| "join sep (s # t # ss) = s @ sep @ join sep (t # ss)"

definition combinedContent :: "ScrapedPage list \<Rightarrow> string" where
  "combinedContent ps = join [CHR 0x0A] (map page_block ps)"

text \<open>The inner \<open>try\<close>: strip the fences, trim, parse as JSON, validate against the schema.\<close>

definition parse_response :: "FAQEnv \<Rightarrow> string \<Rightarrow> string + FAQ list" where
  "parse_response env text =
     (case JSON_parse env (trim (strip_fences text)) of
        Inl msg \<Rightarrow> Inl msg
      | Inr j \<Rightarrow>
          (case FAQResponseSchema_parse (is_url env) j of
             None \<Rightarrow> Inl (zod_message env j)
           | Some fs \<Rightarrow> Inr fs))"

definition faq_failure :: "string \<Rightarrow> FAQTaskResult" where
  "faq_failure msg =
     \<lparr>faq_success = False, faq_faqs = None, faq_text = None, faq_responses = None,
      faq_stats = None, faq_error = Some msg\<rparr>"

text \<open>
  The task's \<open>run\<close>.  Only \<open>pages\<close> and \<open>scrapeId\<close> are read from the payload.  \<open>Date.now()\<close>
  is called for \<open>startTime\<close> (call 0), for the completion log (call 1) and for the returned
  statistics (call 2).
\<close>

definition generateFAQTask :: "FAQEnv \<Rightarrow> FAQPayload \<Rightarrow> FAQTaskResult" where
  "generateFAQTask env payload =
     (let startTime = now env 0 in
      case generateText env (combinedContent (pages payload)) of
        Inl msg \<Rightarrow> faq_failure msg
      | Inr text \<Rightarrow>
          (case parse_response env text of
             Inl msg \<Rightarrow> faq_failure msg
           | Inr parsedFaqs \<Rightarrow>
               let averageConfidence =
                     js_div (round_double env)
                       (foldl (\<lambda>acc faq. round_double env (acc + confidence faq)) 0 parsedFaqs)
                       (real (length parsedFaqs))
               in \<lparr>faq_success = True, faq_faqs = None, faq_text = Some text,
                   faq_responses = None,
                   faq_stats = Some \<lparr>totalFaqs = length parsedFaqs, processedChunks = 1,
                                      totalTokens = estimateTokens text 4,
                                      averageConfidence = averageConfidence,
                                      processingTimeMs = now env 2 - startTime,
                                      model = ''gpt-4o''\<rparr>,
                   faq_error = None\<rparr>))"

text \<open>
  Concrete inputs used below: model answers made of a record of confidence 0.5 and a record
  of confidence 1.  The sums and quotients that occur for them (0.5, 1.5, 0.75) are doubles,
  so rounding leaves them as they are.
\<close>

definition demo_record :: json where
  "demo_record = JObj
     [(''question'', JStr ''What does the product do?''),
      (''answer'', JStr ''It turns the pages of a website into a list of questions and answers.''),
      (''confidence'', JNum (1 / 2)),
      (''sourceUrl'', JStr ''https://example.com/''),
      (''sourcePage'', JStr ''Home'')]"

definition demo_record_sure :: json where
  "demo_record_sure = JObj
     [(''question'', JStr ''How much does the product cost?''),
      (''answer'', JStr ''The product is free for personal use.''),
      (''confidence'', JNum 1),
      (''sourceUrl'', JStr ''https://example.com/pricing''),
      (''sourcePage'', JStr ''Pricing'')]"

definition demo_env :: "json list \<Rightarrow> FAQEnv" where
  "demo_env records =
     \<lparr>generateText = (\<lambda>prompt. Inr ''{...}''),
      JSON_parse = (\<lambda>s. Inr (JObj [(''faqs'', JArr records)])),
      is_url = (\<lambda>u. startsWith u ''https://''),
      zod_message = (\<lambda>j. ''invalid''),
      now = (\<lambda>k. 1000 + int k),
      round_double = (\<lambda>x. x)\<rparr>"

definition demo_payload :: "real \<Rightarrow> FAQPayload" where
  "demo_payload threshold =
     \<lparr>pages = [\<lparr>url = ''https://example.com/'', title = ''Home'', content = ''Welcome'',
                headings = [], links = []\<rparr>],
      scrapeId = ''3f2b8c1e-0000-4000-8000-000000000001'',
      userId = None,
      options = Some \<lparr>maxFaqsPerPage = 5, minConfidence = threshold,
                      preferredCategories = None\<rparr>\<rparr>"


section \<open>Crawler (\<open>scrapeWebsite\<close> in scripts/test-scraper.ts)\<close>

text \<open>
  The test \<open>/\.(pdf|jpg|jpeg|png|gif|mp4|zip|rar)$/i\<close>: the string ends with a dot and one of
  the listed extensions, letters compared without case.
\<close>

definition to_lower :: "char \<Rightarrow> char" where
  "to_lower c =
     (let n = (of_char c :: nat) in if 65 \<le> n \<and> n \<le> 90 then char_of (n + 32) else c)"

definition file_extensions :: "string list" where
  "file_extensions = [''pdf'', ''jpg'', ''jpeg'', ''png'', ''gif'', ''mp4'', ''zip'', ''rar'']"

definition is_file_link :: "string \<Rightarrow> bool" where
  "is_file_link s = list_ex (\<lambda>ext. endsWith (map to_lower s) (''.'' @ ext)) file_extensions"

text \<open>\<open>xs.filter(Boolean)\<close> on strings: the empty strings go.\<close>

definition filter_Boolean :: "string list \<Rightarrow> string list" where
  "filter_Boolean xs = filter (\<lambda>s. s \<noteq> []) xs"

text \<open>
  An entry of the queue, and the state of one crawl: the \<open>visited\<close> set, the \<open>queue\<close> and the
  \<open>results\<close> of the source, and three fields that only record what happened: the entries
  taken from the queue so far, in order (\<open>dequeued\<close>), the number of pages opened (\<open>loads\<close>),
  and the error thrown past the inner \<open>try\<close>, if any (\<open>fatal\<close>).
\<close>

record FrontierEntry =
  entry_url :: string
  depth :: nat

record scrape_state =
  visited :: "string set"
  queue :: "FrontierEntry list"
  results :: "ScrapedPage list"
  dequeued :: "FrontierEntry list"
  loads :: nat
  fatal :: "string option"

text \<open>
  What the browser does with the \<open>n\<close>-th page opened in a crawl, asked for a URL:
  \<open>Fatal\<close> when \<open>browser.newPage()\<close> or \<open>page.close()\<close> throws (outside the inner \<open>try\<close>);
  \<open>LoadError\<close> when anything inside the inner \<open>try\<close> throws before \<open>results.push\<close>
  (navigation, time-out, evaluation); otherwise the text of the selected content element,
  the title, the texts of the \<open>h1\<close>, \<open>h2\<close>, \<open>h3\<close> elements and the \<open>href\<close> attributes of
  the anchors, in document order.
\<close>

datatype page_load =
    Fatal string
  | LoadError
  | Loaded string string "string list" "string list"

text \<open>
  The surroundings of a crawl.  \<open>URL_href link base\<close> is \<open>new URL(link, base).href\<close> and
  \<open>URL_hostname u\<close> is \<open>new URL(u).hostname\<close>, \<open>None\<close> when the constructor throws;
  both belong to the platform and are parameters.  \<open>onProgress\<close> is the optional callback:
  \<open>f n = False\<close> when the call with \<open>n\<close> pages throws.
\<close>

record ScrapeEnv =
  api_key_set :: bool
  connect_error :: "string option"
  load :: "nat \<Rightarrow> string \<Rightarrow> page_load"
  URL_href :: "string \<Rightarrow> string \<Rightarrow> string option"
  URL_hostname :: "string \<Rightarrow> string option"
  onProgress :: "(nat \<Rightarrow> bool) option"

text \<open>The body of \<open>for (const link of links)\<close>, with its \<open>try\<close>, for one link.\<close>

definition enqueue_link ::
  "ScrapeEnv \<Rightarrow> string set \<Rightarrow> string \<Rightarrow> nat \<Rightarrow> FrontierEntry list \<Rightarrow> string \<Rightarrow> FrontierEntry list" where
  "enqueue_link env seen currentUrl d q link =
     (case URL_href env link currentUrl of
        None \<Rightarrow> q
      | Some absoluteUrl \<Rightarrow>
          (case URL_hostname env absoluteUrl of
             None \<Rightarrow> q
           | Some linkDomain \<Rightarrow>
               (case URL_hostname env currentUrl of
                  None \<Rightarrow> q
                | Some currentDomain \<Rightarrow>
                    if linkDomain = currentDomain \<and> absoluteUrl \<notin> seen
                       \<and> \<not> js_includes absoluteUrl ''#'' \<and> \<not> is_file_link absoluteUrl
                    then q @ [\<lparr>entry_url = absoluteUrl, depth = d + 1\<rparr>]
                    else q)))"

definition enqueue_links ::
  "ScrapeEnv \<Rightarrow> string set \<Rightarrow> string \<Rightarrow> nat \<Rightarrow> string list \<Rightarrow> FrontierEntry list \<Rightarrow> FrontierEntry list" where
  "enqueue_links env seen currentUrl d ls q = foldl (enqueue_link env seen currentUrl d) q ls"

text \<open>
  One page: everything between \<open>visited.add(currentUrl)\<close> and \<open>page.close()\<close>.  A failing
  \<open>onProgress\<close> leaves the pushed result in place and skips the links.
\<close>

definition scrape_page :: "ScrapeEnv \<Rightarrow> FrontierEntry \<Rightarrow> scrape_state \<Rightarrow> scrape_state" where
  "scrape_page env e st =
     (case load env (loads st) (entry_url e) of
        Fatal msg \<Rightarrow> st\<lparr>loads := loads st + 1, fatal := Some msg\<rparr>
      | LoadError \<Rightarrow> st\<lparr>loads := loads st + 1\<rparr>
      | Loaded rawContent pageTitle rawHeadings hrefs \<Rightarrow>
          let ls = filter_Boolean hrefs;
              page = \<lparr>url = entry_url e, title = pageTitle, content = trim rawContent,
                      headings = filter_Boolean (map trim rawHeadings),
                      links = filter_Boolean ls\<rparr>;
              st' = st\<lparr>loads := loads st + 1, results := results st @ [page]\<rparr>
          in if (case onProgress env of None \<Rightarrow> True | Some f \<Rightarrow> f (length (results st')))
             then st'\<lparr>queue := enqueue_links env (visited st') (entry_url e) (depth e) ls (queue st')\<rparr>
             else st')"

text \<open>
  The \<open>while\<close> loop.  It stops as well when an error escapes the inner \<open>try\<close>.
  \<open>maxPages\<close> is a JavaScript number, here any real: nothing makes it an integer or
  positive.  (\<open>NaN\<close> and \<open>-Infinity\<close> make the guard false like 0 does; under \<open>Infinity\<close>
  the loop ends only when the queue runs empty, and that value is left out.)
\<close>

function scrape_loop :: "ScrapeEnv \<Rightarrow> real \<Rightarrow> scrape_state \<Rightarrow> scrape_state" where
  "scrape_loop env maxPages st =
     (if queue st \<noteq> [] \<and> real (length (results st)) < maxPages \<and> fatal st = None then
        let e = hd (queue st);
            st1 = st\<lparr>queue := tl (queue st), dequeued := dequeued st @ [e]\<rparr>
        in if entry_url e \<in> visited st then scrape_loop env maxPages st1
           else scrape_loop env maxPages
                  (scrape_page env e (st1\<lparr>visited := insert (entry_url e) (visited st)\<rparr>))
      else st)"
  by pat_completeness auto
termination
proof (relation "measures [\<lambda>(env, maxPages, st). nat \<lceil>maxPages\<rceil> - length (results st),
                           \<lambda>(env, maxPages, st). length (queue st)]")
  show "wf (measures [\<lambda>(env, maxPages, st). nat \<lceil>maxPages\<rceil> - length (results st),
                      \<lambda>(env, maxPages, st). length (queue st)])"
    by simp
next
  fix env :: ScrapeEnv and maxPages :: real and st st1 :: scrape_state and e :: FrontierEntry
  assume "queue st \<noteq> [] \<and> real (length (results st)) < maxPages \<and> fatal st = None"
    and "e = hd (queue st)"
    and "st1 = st\<lparr>queue := tl (queue st), dequeued := dequeued st @ [e]\<rparr>"
  then show "((env, maxPages, st1), env, maxPages, st)
      \<in> measures [\<lambda>(env, maxPages, st). nat \<lceil>maxPages\<rceil> - length (results st),
                   \<lambda>(env, maxPages, st). length (queue st)]"
    by (cases "queue st") simp_all
next
  fix env :: ScrapeEnv and maxPages :: real and st st1 :: scrape_state and e :: FrontierEntry
  assume a: "queue st \<noteq> [] \<and> real (length (results st)) < maxPages \<and> fatal st = None"
    and e: "e = hd (queue st)"
    and st1: "st1 = st\<lparr>queue := tl (queue st), dequeued := dequeued st @ [e]\<rparr>"
  let ?st2 = "st1\<lparr>visited := insert (entry_url e) (visited st)\<rparr>"
  have q: "length (queue ?st2) < length (queue st)" "results ?st2 = results st"
    using a st1 by (cases "queue st"; simp)+
  show "((env, maxPages, scrape_page env e ?st2), env, maxPages, st)
      \<in> measures [\<lambda>(env, maxPages, st). nat \<lceil>maxPages\<rceil> - length (results st),
                   \<lambda>(env, maxPages, st). length (queue st)]"
  proof (cases "load env (loads ?st2) (entry_url e)")
    case (Fatal msg)
    with q show ?thesis by (simp add: scrape_page_def)
  next
    case LoadError
    with q show ?thesis by (simp add: scrape_page_def)
  next
    case (Loaded rawContent pageTitle rawHeadings hrefs)
    then have "length (results (scrape_page env e ?st2)) = Suc (length (results st))"
      using q by (simp add: scrape_page_def Let_def)
    moreover from a have "length (results st) < nat \<lceil>maxPages\<rceil>" by linarith
    ultimately show ?thesis by auto
  qed
qed

declare scrape_loop.simps [simp del]

definition initial_state :: "string \<Rightarrow> scrape_state" where
  "initial_state startUrl =
     \<lparr>visited = {}, queue = [\<lparr>entry_url = startUrl, depth = 0\<rparr>], results = [],
      dequeued = [], loads = 0, fatal = None\<rparr>"

text \<open>The state in which the loop of a crawl from \<open>startUrl\<close> ends.\<close>

definition scrape_run :: "ScrapeEnv \<Rightarrow> string \<Rightarrow> real \<Rightarrow> scrape_state" where
  "scrape_run env startUrl maxPages = scrape_loop env maxPages (initial_state startUrl)"

text \<open>
  \<open>scrapeWebsite\<close>: \<open>Inl\<close> the message of the error it throws, \<open>Inr\<close> the pages it returns.
\<close>

definition scrapeWebsite :: "ScrapeEnv \<Rightarrow> string \<Rightarrow> real \<Rightarrow> string + ScrapedPage list" where
  "scrapeWebsite env startUrl maxPages =
     (if \<not> api_key_set env then Inl ''BROWSERBASE_API_KEY environment variable is required''
      else case connect_error env of
             Some msg \<Rightarrow> Inl msg
           | None \<Rightarrow>
               let st = scrape_run env startUrl maxPages
               in case fatal st of Some msg \<Rightarrow> Inl msg | None \<Rightarrow> Inr (results st))"


section \<open>Crawl task (\<open>scrapeWebsiteTask\<close> with its own loop, in trigger/scrape-website.ts)\<close>

text \<open>
  The file holds two versions of the task.  The first one calls \<open>scrapeWebsite\<close> and wraps
  its pages in the same result object; the second one, modelled here, opens the browser
  itself and runs its own loop over \<open>toVisit\<close>.
\<close>

text \<open>
  What \<open>page.goto\<close> and \<open>page.evaluate\<close> do at the \<open>n\<close>-th visit: \<open>GotoError\<close> when the
  navigation throws, \<open>EvaluateError\<close> when the evaluation throws, otherwise
  \<open>window.location.hostname\<close>, the title, the \<open>innerText\<close> of the selected content
  element, the heading texts and the \<open>href\<close> properties of all anchors.
  \<open>task_round_double\<close> in the surroundings below is the rounding of a real to the
  nearest double.
\<close>

datatype task_visit =
    GotoError
  | EvaluateError
  | Evaluated string string string "string list" "string list"

record TaskEnv =
  key_set :: bool
  launch_error :: "string option"
  proxy_error :: "string option"
  page_setup_error :: "string option"
  visit :: "nat \<Rightarrow> string \<Rightarrow> task_visit"
  task_round_double :: "real \<Rightarrow> real"

record TaskPayload =
  payload_url :: string
  payload_maxPages :: real
  siteOwner :: bool

record ScrapeStats =
  totalPages :: nat
  totalContent :: nat
  averageContentLength :: js_number

record ScrapeTaskResult =
  task_success :: bool
  task_pages :: "ScrapedPage list option"
  task_stats :: "ScrapeStats option"
  task_error :: "string option"

record task_state =
  t_visited :: "string set"
  toVisit :: "string list"
  t_results :: "ScrapedPage list"
  visits :: nat

text \<open>\<open>initializeBrowser\<close>: the message of the error thrown, or \<open>None\<close> for a browser.\<close>

definition initializeBrowser :: "TaskEnv \<Rightarrow> bool \<Rightarrow> string option" where
  "initializeBrowser env owner =
     (if owner then launch_error env
      else if \<not> key_set env
           then Some ''BROWSERBASE_API_KEY environment variable is required for non-owned sites''
           else proxy_error env)"

text \<open>\<open>Array.from(new Set(xs))\<close>: the first occurrence of each element, in order.\<close>

definition from_Set :: "string list \<Rightarrow> string list" where
  "from_Set xs = foldl (\<lambda>acc x. if x \<in> set acc then acc else acc @ [x]) [] xs"

text \<open>The links computed inside the page: the filter on the anchors, then the set.\<close>

definition page_links :: "string \<Rightarrow> string list \<Rightarrow> string list" where
  "page_links domain hrefs =
     from_Set (filter (\<lambda>href. js_includes href domain \<and> startsWith href ''http''
                              \<and> \<not> js_includes href ''#'' \<and> \<not> is_file_link href) hrefs)"

text \<open>One iteration after the \<open>visited.has\<close> test, the URL already taken off \<open>toVisit\<close>.\<close>

definition task_page :: "TaskEnv \<Rightarrow> string \<Rightarrow> task_state \<Rightarrow> task_state" where
  "task_page env currentUrl st =
     (case visit env (visits st) currentUrl of
        GotoError \<Rightarrow> st\<lparr>visits := visits st + 1\<rparr>
      | EvaluateError \<Rightarrow>
          st\<lparr>visits := visits st + 1, t_visited := insert currentUrl (t_visited st)\<rparr>
      | Evaluated domain pageTitle innerText rawHeadings hrefs \<Rightarrow>
          let seen = insert currentUrl (t_visited st);
              pageLinks = page_links domain hrefs;
              page = \<lparr>url = currentUrl, title = pageTitle, content = trim innerText,
                      headings = filter_Boolean (map trim rawHeadings), links = pageLinks\<rparr>
          in st\<lparr>visits := visits st + 1, t_visited := seen,
                t_results := t_results st @ [page],
                toVisit := toVisit st @ filter (\<lambda>link. link \<notin> seen) pageLinks\<rparr>)"

text \<open>The \<open>while\<close> loop; \<open>maxPages\<close> is any real number, as in \<open>scrape_loop\<close>.\<close>

function task_loop :: "TaskEnv \<Rightarrow> real \<Rightarrow> task_state \<Rightarrow> task_state" where
  "task_loop env maxPages st =
     (if toVisit st \<noteq> [] \<and> real (length (t_results st)) < maxPages then
        let currentUrl = hd (toVisit st);
            st1 = st\<lparr>toVisit := tl (toVisit st)\<rparr>
        in if currentUrl \<in> t_visited st then task_loop env maxPages st1
           else task_loop env maxPages (task_page env currentUrl st1)
      else st)"
  by pat_completeness auto
termination
proof (relation "measures [\<lambda>(env, maxPages, st). nat \<lceil>maxPages\<rceil> - length (t_results st),
                           \<lambda>(env, maxPages, st). length (toVisit st)]")
  show "wf (measures [\<lambda>(env, maxPages, st). nat \<lceil>maxPages\<rceil> - length (t_results st),
                      \<lambda>(env, maxPages, st). length (toVisit st)])"
    by simp
next
  fix env :: TaskEnv and maxPages :: real and st st1 :: task_state and currentUrl :: string
  assume "toVisit st \<noteq> [] \<and> real (length (t_results st)) < maxPages"
    and "st1 = st\<lparr>toVisit := tl (toVisit st)\<rparr>"
  then show "((env, maxPages, st1), env, maxPages, st)
      \<in> measures [\<lambda>(env, maxPages, st). nat \<lceil>maxPages\<rceil> - length (t_results st),
                   \<lambda>(env, maxPages, st). length (toVisit st)]"
    by (cases "toVisit st") simp_all
next
  fix env :: TaskEnv and maxPages :: real and st st1 :: task_state and currentUrl :: string
  assume a: "toVisit st \<noteq> [] \<and> real (length (t_results st)) < maxPages"
    and st1: "st1 = st\<lparr>toVisit := tl (toVisit st)\<rparr>"
  have q: "length (toVisit st1) < length (toVisit st)" "t_results st1 = t_results st"
    using a st1 by (cases "toVisit st"; simp)+
  show "((env, maxPages, task_page env currentUrl st1), env, maxPages, st)
      \<in> measures [\<lambda>(env, maxPages, st). nat \<lceil>maxPages\<rceil> - length (t_results st),
                   \<lambda>(env, maxPages, st). length (toVisit st)]"
  proof (cases "visit env (visits st1) currentUrl")
    case GotoError
    with q show ?thesis by (simp add: task_page_def)
  next
    case EvaluateError
    with q show ?thesis by (simp add: task_page_def)
  next
    case (Evaluated domain pageTitle innerText rawHeadings hrefs)
    then have "length (t_results (task_page env currentUrl st1)) = Suc (length (t_results st))"
      using q by (simp add: task_page_def Let_def)
    moreover from a have "length (t_results st) < nat \<lceil>maxPages\<rceil>" by linarith
    ultimately show ?thesis by auto
  qed
qed

declare task_loop.simps [simp del]

definition task_initial :: "string \<Rightarrow> task_state" where
  "task_initial seed = \<lparr>t_visited = {}, toVisit = [seed], t_results = [], visits = 0\<rparr>"

definition task_run :: "TaskEnv \<Rightarrow> TaskPayload \<Rightarrow> task_state" where
  "task_run env payload =
     task_loop env (payload_maxPages payload) (task_initial (payload_url payload))"

definition task_failure :: "string \<Rightarrow> ScrapeTaskResult" where
  "task_failure msg =
     \<lparr>task_success = False, task_pages = None, task_stats = None, task_error = Some msg\<rparr>"

text \<open>
  The sum \<open>results.reduce((acc, page) => acc + page.content.length, 0)\<close>, a sum of
  integers and exact as long as it stays below \<open>2 ^ 53\<close>.
\<close>

definition content_total :: "ScrapedPage list \<Rightarrow> nat" where
  "content_total rs = foldl (\<lambda>acc page. acc + length (content page)) 0 rs"

definition scrapeWebsiteTask :: "TaskEnv \<Rightarrow> TaskPayload \<Rightarrow> ScrapeTaskResult" where
  "scrapeWebsiteTask env payload =
     (case initializeBrowser env (siteOwner payload) of
        Some msg \<Rightarrow> task_failure msg
      | None \<Rightarrow>
          (case page_setup_error env of
             Some msg \<Rightarrow> task_failure msg
           | None \<Rightarrow>
               let rs = t_results (task_run env payload)
               in \<lparr>task_success = True, task_pages = Some rs,
                   task_stats = Some
                     \<lparr>totalPages = length rs, totalContent = content_total rs,
                      averageContentLength =
                        Math_round (js_div (task_round_double env)
                                      (real (content_total rs)) (real (length rs)))\<rparr>,
                   task_error = None\<rparr>))"


section \<open>Concrete sites\<close>

text \<open>
  A small site on \<open>example.com\<close>.  Its home page links to two pages (one of them twice), to
  another host, to a file and to one page under two different fragments; \<open>/b\<close> does not
  load.  \<open>demo_href\<close> and \<open>demo_hostname\<close> agree with the platform's \<open>URL\<close> class on the
  URLs of this site.
\<close>

definition demo_href :: "string \<Rightarrow> string \<Rightarrow> string option" where
  "demo_href link base =
     (if startsWith link ''https://'' then Some link
      else if startsWith link ''/'' then Some (''https://example.com'' @ link)
      else None)"

definition demo_hostname :: "string \<Rightarrow> string option" where
  "demo_hostname u =
     (if startsWith u ''https://example.com/'' then Some ''example.com''
      else if startsWith u ''https://other.com/'' then Some ''other.com''
      else None)"

definition demo_load :: "nat \<Rightarrow> string \<Rightarrow> page_load" where
  "demo_load n u =
     (if u = ''https://example.com/'' then
        Loaded '' Welcome '' ''Home'' [''Example'']
          [''/a'', ''/b'', ''https://other.com/page'', ''/page#section'', ''/page#other'',
           ''/file.pdf'', ''/a'']
      else if u = ''https://example.com/a'' then
        Loaded ''About us'' ''About'' [] [''/'', ''/b'']
      else LoadError)"

definition demo_site :: ScrapeEnv where
  "demo_site =
     \<lparr>api_key_set = True, connect_error = None, load = demo_load, URL_href = demo_href,
      URL_hostname = demo_hostname, onProgress = None\<rparr>"

text \<open>The same site seen by the task, where nothing can be loaded.\<close>

definition unreachable_site :: TaskEnv where
  "unreachable_site =
     \<lparr>key_set = True, launch_error = None, proxy_error = None, page_setup_error = None,
      visit = (\<lambda>n u. GotoError), task_round_double = (\<lambda>x. x)\<rparr>"

text \<open>
  A site whose home page links to a page of its own and to a page on another host, the
  name of which contains the site's host name.
\<close>

definition lookalike_visit :: "nat \<Rightarrow> string \<Rightarrow> task_visit" where
  "lookalike_visit n u =
     (if u = ''https://example.com/'' then
        Evaluated ''example.com'' ''Home'' ''Welcome'' []
          [''https://example.com/about'', ''https://example.com.evil.org/login'']
      else if u = ''https://example.com/about'' then
        Evaluated ''example.com'' ''About'' ''About us'' [] [''https://example.com/'']
      else if u = ''https://example.com.evil.org/login'' then
        Evaluated ''example.com.evil.org'' ''Login'' ''Password'' [] []
      else GotoError)"

definition lookalike_site :: TaskEnv where
  "lookalike_site =
     \<lparr>key_set = True, launch_error = None, proxy_error = None, page_setup_error = None,
      visit = lookalike_visit, task_round_double = (\<lambda>x. x)\<rparr>"

text \<open>The payload used below, and the same with a budget of two and a half pages.\<close>

definition fractional_payload :: TaskPayload where
  "fractional_payload = \<lparr>payload_url = ''https://example.com/'', payload_maxPages = 5 / 2, siteOwner = True\<rparr>"

definition demo_task_payload :: TaskPayload where
  "demo_task_payload = \<lparr>payload_url = ''https://example.com/'', payload_maxPages = 5, siteOwner = True\<rparr>"

text \<open>A state of the crawl in which the only waiting URL has been visited already.\<close>

definition revisit_state :: scrape_state where
  "revisit_state =
     \<lparr>visited = {''https://example.com/''},
      queue = [\<lparr>entry_url = ''https://example.com/'', depth = 1\<rparr>],
      results = [], dequeued = [], loads = 1, fatal = None\<rparr>"


section \<open>Properties of the retry executor\<close>


lemma withRetry_loop_success:
  "attempt \<le> maxAttempts \<Longrightarrow> operation attempt = Inr v \<Longrightarrow>
   withRetry_loop operation random maxAttempts delayMs attempt lastError slept =
     \<lparr>outcome = Inr v, attempts = attempt, delays = slept\<rparr>"
  by (subst withRetry_loop.simps) simp

lemma withRetry_loop_rethrow:
  "attempt \<le> maxAttempts \<Longrightarrow> operation attempt = Inl e \<Longrightarrow>
   is_permanent e \<or> attempt = maxAttempts \<Longrightarrow>
   withRetry_loop operation random maxAttempts delayMs attempt lastError slept =
     \<lparr>outcome = Inl (Some e), attempts = attempt, delays = slept\<rparr>"
  by (subst withRetry_loop.simps) auto

lemma withRetry_loop_retry:
  "attempt < maxAttempts \<Longrightarrow> operation attempt = Inl e \<Longrightarrow> \<not> is_permanent e \<Longrightarrow>
   withRetry_loop operation random maxAttempts delayMs attempt lastError slept =
     withRetry_loop operation random maxAttempts delayMs (attempt + 1) (Some e)
       (slept @ [backoff delayMs random attempt])"
  by (subst withRetry_loop.simps) simp

text \<open>The four cases cover every iteration.\<close>

lemma withRetry_loop_cases:
  fixes attempt maxAttempts :: nat and operation :: "nat \<Rightarrow> js_error + 'a"
  obtains (exit) "\<not> attempt \<le> maxAttempts"
  | (success) v where "attempt \<le> maxAttempts" "operation attempt = Inr v"
  | (rethrow) e where "attempt \<le> maxAttempts" "operation attempt = Inl e"
      "is_permanent e \<or> attempt = maxAttempts"
  | (retry) e where "attempt < maxAttempts" "operation attempt = Inl e" "\<not> is_permanent e"
proof (cases "attempt \<le> maxAttempts")
  case False
  then show ?thesis by (rule exit)
next
  case le: True
  show ?thesis
  proof (cases "operation attempt")
    case (Inr v)
    with le show ?thesis by (rule success)
  next
    case (Inl e)
    show ?thesis
    proof (cases "is_permanent e \<or> attempt = maxAttempts")
      case True
      with le Inl show ?thesis by (rule rethrow)
    next
      case False
      from le False have "attempt < maxAttempts" by simp
      with Inl False show ?thesis by (intro retry) auto
    qed
  qed
qed

lemma withRetry_loop_attempts_ge:
  "attempt \<le> maxAttempts \<Longrightarrow>
   attempt \<le> attempts (withRetry_loop operation random maxAttempts delayMs attempt lastError slept)"
proof (induction operation random maxAttempts delayMs attempt lastError slept
       rule: withRetry_loop.induct)
  case (1 operation random maxAttempts delayMs attempt lastError slept)
  show ?case
  proof (cases rule: withRetry_loop_cases
      [where attempt = attempt and maxAttempts = maxAttempts and operation = operation])
    case exit
    with "1.prems" show ?thesis by simp
  next
    case (success v)
    then show ?thesis by (simp add: withRetry_loop_success)
  next
    case (rethrow e)
    then show ?thesis by (simp add: withRetry_loop_rethrow)
  next
    case (retry e)
    then have "attempt + 1 \<le> attempts (withRetry_loop operation random maxAttempts delayMs
        (attempt + 1) (Some e) (slept @ [backoff delayMs random attempt]))"
      by (intro "1.IH") auto
    with retry show ?thesis by (simp add: withRetry_loop_retry)
  qed
qed



text \<open>The run is determined by the first call that does not fail with a retryable error.\<close>

lemma withRetry_loop_stop:
  assumes "attempt \<le> k" "k \<le> maxAttempts"
    and "\<forall>j. attempt \<le> j \<and> j < k \<longrightarrow> (\<exists>e. operation j = Inl e \<and> \<not> is_permanent e)"
    and "case operation k of Inr v \<Rightarrow> True | Inl e \<Rightarrow> is_permanent e \<or> k = maxAttempts"
  shows "withRetry_loop operation random maxAttempts delayMs attempt lastError slept =
     \<lparr>outcome = (case operation k of Inr v \<Rightarrow> Inr v | Inl e \<Rightarrow> Inl (Some e)),
      attempts = k,
      delays = slept @ map (backoff delayMs random) [attempt ..< k]\<rparr>"
  using assms
proof (induction operation random maxAttempts delayMs attempt lastError slept
       rule: withRetry_loop.induct)
  case (1 operation random maxAttempts delayMs attempt lastError slept)
  show ?case
  proof (cases "k = attempt")
    case True
    show ?thesis
    proof (cases "operation attempt")
      case (Inr v)
      with True "1.prems" show ?thesis by (simp add: withRetry_loop_success)
    next
      case (Inl e)
      with True "1.prems" show ?thesis by (simp add: withRetry_loop_rethrow)
    qed
  next
    case False
    with "1.prems" have lt: "attempt < k" by simp
    with "1.prems" obtain e where e: "operation attempt = Inl e" "\<not> is_permanent e" by auto
    from lt "1.prems" have ne: "attempt \<noteq> maxAttempts" "attempt \<le> maxAttempts" by auto
    then have lt': "attempt < maxAttempts" by simp
    have up: "[attempt ..< k] = attempt # [attempt + 1 ..< k]" using lt by (simp add: upt_conv_Cons)
    have "withRetry_loop operation random maxAttempts delayMs (attempt + 1) (Some e)
            (slept @ [backoff delayMs random attempt]) =
          \<lparr>outcome = (case operation k of Inr v \<Rightarrow> Inr v | Inl e \<Rightarrow> Inl (Some e)),
           attempts = k,
           delays = (slept @ [backoff delayMs random attempt]) @ map (backoff delayMs random) [attempt + 1 ..< k]\<rparr>"
      using e ne lt "1.prems" by (intro "1.IH"[of e]) auto
    moreover have "withRetry_loop operation random maxAttempts delayMs attempt lastError slept =
        withRetry_loop operation random maxAttempts delayMs (attempt + 1) (Some e)
          (slept @ [backoff delayMs random attempt])"
      using lt' e by (rule withRetry_loop_retry)
    ultimately show ?thesis using up by simp
  qed
qed

lemma is_permanent_category: "is_permanent e \<longleftrightarrow> error_category e = Some PERMANENT"
  by (cases e) auto

lemma withRetry_loop_continues:
  "attempt \<le> k \<Longrightarrow> k < maxAttempts \<Longrightarrow>
   \<forall>j. attempt \<le> j \<and> j \<le> k \<longrightarrow> (\<exists>e. operation j = Inl e \<and> \<not> is_permanent e) \<Longrightarrow>
   k < attempts (withRetry_loop operation random maxAttempts delayMs attempt lastError slept)"
proof (induction operation random maxAttempts delayMs attempt lastError slept
       rule: withRetry_loop.induct)
  case (1 operation random maxAttempts delayMs attempt lastError slept)
  from "1.prems" obtain e where e: "operation attempt = Inl e" "\<not> is_permanent e" by auto
  from "1.prems" have lt: "attempt < maxAttempts" by simp
  let ?r = "withRetry_loop operation random maxAttempts delayMs (attempt + 1) (Some e)
              (slept @ [backoff delayMs random attempt])"
  have unfold: "withRetry_loop operation random maxAttempts delayMs attempt lastError slept = ?r"
    using lt e by (rule withRetry_loop_retry)
  show ?case
  proof (cases "k = attempt")
    case True
    from lt have "attempt + 1 \<le> attempts ?r" by (intro withRetry_loop_attempts_ge) simp
    with True unfold show ?thesis by simp
  next
    case False
    with "1.prems" have "attempt + 1 \<le> k" by simp
    with e lt "1.prems" have "k < attempts ?r" by (intro "1.IH"[of e]) auto
    with unfold show ?thesis by simp
  qed
qed

text \<open>
  Counterexample to claim C2 as stated: an operation whose every call fails with a
  \<open>FAQGenerationError\<close> of category \<open>VALIDATION\<close> is called three times under
  \<open>maxAttempts = 3\<close>, with two sleeps in between, instead of once.
\<close>

theorem withRetry_validation_retried_cex:
  "attempts (withRetry op_validation_fails VALIDATION 3 1000 no_jitter) = 3 \<and>
   delays (withRetry op_validation_fails VALIDATION 3 1000 no_jitter) = [1000, 2000]"
  by (simp add: withRetry_def withRetry_loop.simps op_validation_fails_def no_jitter_def backoff_def)

text \<open>
  Claim C2 (amended): whenever the failure observed at attempt \<open>k\<close> is a
  \<open>FAQGenerationError\<close> or \<open>DatabaseError\<close> of category \<open>PERMANENT\<close>, \<open>withRetry\<close> re-raises
  that error at once: the operation has been called exactly \<open>k\<close> times (once, when \<open>k = 1\<close>)
  and only the \<open>k - 1\<close> earlier failures were followed by a sleep.  A failure of any other
  category, \<open>VALIDATION\<close> included, is retried while attempts remain.
\<close>

theorem withRetry_permanent_immediate:
  assumes "1 \<le> k" and "k \<le> maxAttempts"
    and "\<forall>j. 1 \<le> j \<and> j < k \<longrightarrow> (\<exists>e'. operation j = Inl e' \<and> \<not> is_permanent e')"
    and "operation k = Inl e"
  shows "(error_category e = Some PERMANENT \<longrightarrow>
            outcome (withRetry operation errorCategory maxAttempts delayMs random) = Inl (Some e) \<and>
            attempts (withRetry operation errorCategory maxAttempts delayMs random) = k \<and>
            length (delays (withRetry operation errorCategory maxAttempts delayMs random)) = k - 1) \<and>
         (error_category e \<noteq> Some PERMANENT \<and> k < maxAttempts \<longrightarrow>
            k < attempts (withRetry operation errorCategory maxAttempts delayMs random))"
proof (intro conjI impI)
  assume perm: "error_category e = Some PERMANENT"
  then have "is_permanent e" by (simp add: is_permanent_category)
  with assms have "withRetry_loop operation random maxAttempts delayMs 1 None [] =
     \<lparr>outcome = (case operation k of Inr v \<Rightarrow> Inr v | Inl e \<Rightarrow> Inl (Some e)),
      attempts = k, delays = [] @ map (backoff delayMs random) [1 ..< k]\<rparr>"
    by (intro withRetry_loop_stop) auto
  with assms show "outcome (withRetry operation errorCategory maxAttempts delayMs random) = Inl (Some e)"
    and "attempts (withRetry operation errorCategory maxAttempts delayMs random) = k"
    and "length (delays (withRetry operation errorCategory maxAttempts delayMs random)) = k - 1"
    by (simp_all add: withRetry_def)
next
  assume "error_category e \<noteq> Some PERMANENT \<and> k < maxAttempts"
  then have np: "\<not> is_permanent e" and lt: "k < maxAttempts" by (simp_all add: is_permanent_category)
  have "\<forall>j. 1 \<le> j \<and> j \<le> k \<longrightarrow> (\<exists>e'. operation j = Inl e' \<and> \<not> is_permanent e')"
  proof (intro allI impI)
    fix j assume "1 \<le> j \<and> j \<le> k"
    then show "\<exists>e'. operation j = Inl e' \<and> \<not> is_permanent e'"
      using assms(3,4) np by (cases "j = k") auto
  qed
  with assms(1) lt show "k < attempts (withRetry operation errorCategory maxAttempts delayMs random)"
    unfolding withRetry_def by (intro withRetry_loop_continues) auto
qed

text \<open>
  Witness for C2: a validation failure followed by a permanent one stops at the second call;
  a validation failure at the first call is followed by further calls.
\<close>

theorem withRetry_permanent_immediate_witness:
  "outcome (withRetry op_permanent_second TRANSIENT 3 1000 no_jitter)
     = Inl (Some (DatabaseError ''missing credential'' PERMANENT)) \<and>
   attempts (withRetry op_permanent_second TRANSIENT 3 1000 no_jitter) = 2 \<and>
   length (delays (withRetry op_permanent_second TRANSIENT 3 1000 no_jitter)) = 1 \<and>
   1 < attempts (withRetry op_validation_fails VALIDATION 3 1000 no_jitter)"
proof -
  have a: "\<forall>j. 1 \<le> j \<and> j < 2 \<longrightarrow> (\<exists>e'. op_permanent_second j = Inl e' \<and> \<not> is_permanent e')"
    by (auto simp: op_permanent_second_def)
  have b: "op_permanent_second 2 = Inl (DatabaseError ''missing credential'' PERMANENT)"
    by (simp add: op_permanent_second_def)
  have c: "\<forall>j. 1 \<le> j \<and> j < 1 \<longrightarrow> (\<exists>e'. op_validation_fails j = Inl e' \<and> \<not> is_permanent e')"
    by simp
  have d: "op_validation_fails 1 = Inl (FAQGenerationError ''schema mismatch'' VALIDATION)"
    by (simp add: op_validation_fails_def)
  from withRetry_permanent_immediate[of 2 3 op_permanent_second _ TRANSIENT 1000 no_jitter, OF _ _ a b]
       withRetry_permanent_immediate[of 1 3 op_validation_fails _ VALIDATION 1000 no_jitter, OF _ _ c d]
  show ?thesis by simp
qed





section \<open>Properties of the FAQ generation task\<close>

text \<open>With exact arithmetic the fold of \<open>reduce\<close> is the sum of the list.\<close>

lemma foldl_exact_sum:
  "\<forall>x. fl x = x \<Longrightarrow> foldl (\<lambda>acc c. fl (acc + c)) a cs = a + sum_list cs"
  by (induction cs arbitrary: a) (simp_all add: add.assoc)

lemma generateFAQTask_success:
  assumes "generateText env (combinedContent (pages payload)) = Inr text"
    and "parse_response env text = Inr fs"
  shows "generateFAQTask env payload =
     \<lparr>faq_success = True, faq_faqs = None, faq_text = Some text, faq_responses = None,
      faq_stats = Some \<lparr>totalFaqs = length fs, processedChunks = 1,
                         totalTokens = estimateTokens text 4,
                         averageConfidence =
                           js_div (round_double env)
                             (foldl (\<lambda>acc c. round_double env (acc + c)) 0 (map confidence fs))
                             (real (length fs)),
                         processingTimeMs = now env 2 - now env 0,
                         model = ''gpt-4o''\<rparr>,
      faq_error = None\<rparr>"
  using assms by (simp add: generateFAQTask_def foldl_map)

lemma generateFAQTask_no_faqs: "faq_faqs (generateFAQTask env payload) = None"
  by (simp add: generateFAQTask_def faq_failure_def Let_def split: sum.splits)

lemma demo_parse_response:
  "parse_response (demo_env [demo_record]) ''{...}'' =
     Inr [\<lparr>question = ''What does the product do?'',
           answer = ''It turns the pages of a website into a list of questions and answers.'',
           confidence = 1 / 2, sourceUrl = ''https://example.com/'', sourcePage = ''Home'',
           metadata = None\<rparr>]"
  by (simp add: parse_response_def demo_env_def demo_record_def FAQResponseSchema_parse_def
      FAQSchema_parse_def json_field_def json_string_def json_number_def)

lemma demo_parse_response_two:
  "parse_response (demo_env [demo_record, demo_record_sure]) ''{...}'' =
     Inr [\<lparr>question = ''What does the product do?'',
           answer = ''It turns the pages of a website into a list of questions and answers.'',
           confidence = 1 / 2, sourceUrl = ''https://example.com/'', sourcePage = ''Home'',
           metadata = None\<rparr>,
          \<lparr>question = ''How much does the product cost?'',
           answer = ''The product is free for personal use.'',
           confidence = 1, sourceUrl = ''https://example.com/pricing'', sourcePage = ''Pricing'',
           metadata = None\<rparr>]"
  by (simp add: parse_response_def demo_env_def demo_record_def demo_record_sure_def
      FAQResponseSchema_parse_def FAQSchema_parse_def json_field_def json_string_def
      json_number_def)

lemma demo_parse_response_empty: "parse_response (demo_env []) ''{...}'' = Inr []"
  by (simp add: parse_response_def demo_env_def FAQResponseSchema_parse_def json_field_def)

lemma demo_generateText: "generateText (demo_env records) prompt = Inr ''{...}''"
  by (simp add: demo_env_def)

text \<open>
  Counterexample to claim C1 as stated: for a model answer whose only record has confidence
  0.5, the task returns the same result under \<open>minConfidence = 0.7\<close> and under
  \<open>minConfidence = 0.3\<close>; the result has no \<open>faqs\<close> list in either case, its \<open>text\<close> is the
  untouched answer and the record is counted.
\<close>

theorem generateFAQTask_minConfidence_cex:
  "generateFAQTask (demo_env [demo_record]) (demo_payload (7 / 10)) =
     generateFAQTask (demo_env [demo_record]) (demo_payload (3 / 10)) \<and>
   faq_faqs (generateFAQTask (demo_env [demo_record]) (demo_payload (3 / 10))) = None \<and>
   faq_text (generateFAQTask (demo_env [demo_record]) (demo_payload (7 / 10))) = Some ''{...}'' \<and>
   map_option totalFaqs (faq_stats (generateFAQTask (demo_env [demo_record]) (demo_payload (7 / 10))))
     = Some 1"
  by (simp add: generateFAQTask_success [OF demo_generateText demo_parse_response]
      generateFAQTask_no_faqs)

text \<open>
  Claim C1 (amended): \<open>generateFAQTask\<close> never reads the options, so \<open>minConfidence\<close> has no
  effect on what it returns.  No record is dropped and none is returned as a record: the
  result has no \<open>faqs\<close> list, a successful result carries the model's text as it came, and
  every record that passes the schema, whatever its confidence, is counted in \<open>totalFaqs\<close>.
\<close>

theorem generateFAQTask_ignores_options:
  "generateFAQTask env (payload\<lparr>options := opts\<rparr>) = generateFAQTask env payload \<and>
   faq_faqs (generateFAQTask env payload) = None \<and>
   (\<forall>text fs. generateText env (combinedContent (pages payload)) = Inr text \<and>
        parse_response env text = Inr fs \<longrightarrow>
        faq_success (generateFAQTask env payload) \<and>
        faq_text (generateFAQTask env payload) = Some text \<and>
        map_option totalFaqs (faq_stats (generateFAQTask env payload)) = Some (length fs))"
proof (intro conjI allI impI)
  show "generateFAQTask env (payload\<lparr>options := opts\<rparr>) = generateFAQTask env payload"
    by (simp add: generateFAQTask_def)
  show "faq_faqs (generateFAQTask env payload) = None"
    by (rule generateFAQTask_no_faqs)
next
  fix t fs
  assume "generateText env (combinedContent (pages payload)) = Inr t \<and>
          parse_response env t = Inr fs"
  then have r: "generateFAQTask env payload =
     \<lparr>faq_success = True, faq_faqs = None, faq_text = Some t, faq_responses = None,
      faq_stats = Some \<lparr>totalFaqs = length fs, processedChunks = 1,
                         totalTokens = estimateTokens t 4,
                         averageConfidence =
                           js_div (round_double env)
                             (foldl (\<lambda>acc c. round_double env (acc + c)) 0 (map confidence fs))
                             (real (length fs)),
                         processingTimeMs = now env 2 - now env 0,
                         model = ''gpt-4o''\<rparr>,
      faq_error = None\<rparr>"
    by (intro generateFAQTask_success) simp_all
  show "faq_success (generateFAQTask env payload)" by (simp add: r)
  show "faq_text (generateFAQTask env payload) = Some t" by (simp add: r)
  show "map_option totalFaqs (faq_stats (generateFAQTask env payload)) = Some (length fs)"
    by (simp add: r)
qed

text \<open>
  Witness for C1: the payload with threshold 0.7, its options replaced by none at all, on the
  answer with one record of confidence 0.5.
\<close>

theorem generateFAQTask_ignores_options_witness:
  "generateFAQTask (demo_env [demo_record]) ((demo_payload (7 / 10))\<lparr>options := None\<rparr>) =
     generateFAQTask (demo_env [demo_record]) (demo_payload (7 / 10)) \<and>
   faq_success (generateFAQTask (demo_env [demo_record]) (demo_payload (7 / 10))) \<and>
   faq_text (generateFAQTask (demo_env [demo_record]) (demo_payload (7 / 10))) = Some ''{...}'' \<and>
   map_option totalFaqs (faq_stats (generateFAQTask (demo_env [demo_record]) (demo_payload (7 / 10))))
     = Some (Suc 0)"
  using generateFAQTask_ignores_options
    [where env = "demo_env [demo_record]" and payload = "demo_payload (7 / 10)" and opts = None]
    demo_generateText demo_parse_response
  by simp

text \<open>
  Claim C10: when the model's answer parses and passes the schema, the task succeeds and the
  returned \<open>averageConfidence\<close> is the sum of the records' confidences, as \<open>reduce\<close> adds
  them up from 0, divided by their number, each operation rounded to a double, with no
  guard on the divisor: for a non-empty \<open>faqs\<close> array it is that finite quotient (the exact
  mean when no rounding occurs), and for an empty one it is \<open>0 / 0\<close>, that is \<open>NaN\<close>, next to
  \<open>totalFaqs = 0\<close> and \<open>success: true\<close>.
\<close>

theorem generateFAQTask_averageConfidence:
  assumes "generateText env (combinedContent (pages payload)) = Inr text"
    and "parse_response env text = Inr fs"
  shows "faq_success (generateFAQTask env payload) \<and>
     map_option totalFaqs (faq_stats (generateFAQTask env payload)) = Some (length fs) \<and>
     (fs \<noteq> [] \<longrightarrow>
        map_option averageConfidence (faq_stats (generateFAQTask env payload)) =
          Some (Num (round_double env
            (foldl (\<lambda>acc c. round_double env (acc + c)) 0 (map confidence fs)
               / real (length fs))))) \<and>
     (fs \<noteq> [] \<and> (\<forall>x. round_double env x = x) \<longrightarrow>
        map_option averageConfidence (faq_stats (generateFAQTask env payload)) =
          Some (Num (sum_list (map confidence fs) / real (length fs)))) \<and>
     (fs = [] \<longrightarrow>
        map_option averageConfidence (faq_stats (generateFAQTask env payload)) = Some NaN \<and>
        map_option totalFaqs (faq_stats (generateFAQTask env payload)) = Some 0)"
proof (intro conjI impI)
  note r = generateFAQTask_success [OF assms]
  show "faq_success (generateFAQTask env payload)" by (simp add: r)
  show "map_option totalFaqs (faq_stats (generateFAQTask env payload)) = Some (length fs)"
    by (simp add: r)
  {
    assume "fs \<noteq> []"
    then show "map_option averageConfidence (faq_stats (generateFAQTask env payload)) =
          Some (Num (round_double env
            (foldl (\<lambda>acc c. round_double env (acc + c)) 0 (map confidence fs)
               / real (length fs))))"
      by (simp add: r js_div_def)
  }
  {
    assume a: "fs \<noteq> [] \<and> (\<forall>x. round_double env x = x)"
    then have "foldl (\<lambda>acc c. round_double env (acc + c)) 0 (map confidence fs)
        = 0 + sum_list (map confidence fs)"
      by (intro foldl_exact_sum) simp
    with a show "map_option averageConfidence (faq_stats (generateFAQTask env payload)) =
          Some (Num (sum_list (map confidence fs) / real (length fs)))"
      by (simp add: r js_div_def)
  }
  {
    assume e: "fs = []"
    then show "map_option averageConfidence (faq_stats (generateFAQTask env payload)) = Some NaN"
      by (simp add: r js_div_def)
    from e show "map_option totalFaqs (faq_stats (generateFAQTask env payload)) = Some 0"
      by (simp add: r)
  }
qed

text \<open>
  Witness for C10: an answer with the confidences 0.5 and 1, whose average is 0.75, and an
  answer whose \<open>faqs\<close> array is empty.
\<close>

theorem generateFAQTask_averageConfidence_witness:
  "map_option averageConfidence
     (faq_stats (generateFAQTask (demo_env [demo_record, demo_record_sure]) (demo_payload (7 / 10))))
     = Some (Num (3 / 4)) \<and>
   map_option totalFaqs
     (faq_stats (generateFAQTask (demo_env [demo_record, demo_record_sure]) (demo_payload (7 / 10))))
     = Some 2 \<and>
   faq_success (generateFAQTask (demo_env []) (demo_payload (7 / 10))) \<and>
   map_option averageConfidence (faq_stats (generateFAQTask (demo_env []) (demo_payload (7 / 10))))
     = Some NaN \<and>
   map_option totalFaqs (faq_stats (generateFAQTask (demo_env []) (demo_payload (7 / 10)))) = Some 0"
proof -
  let ?fs = "[\<lparr>question = ''What does the product do?'',
           answer = ''It turns the pages of a website into a list of questions and answers.'',
           confidence = 1 / 2, sourceUrl = ''https://example.com/'', sourcePage = ''Home'',
           metadata = None\<rparr>,
          \<lparr>question = ''How much does the product cost?'',
           answer = ''The product is free for personal use.'',
           confidence = 1, sourceUrl = ''https://example.com/pricing'', sourcePage = ''Pricing'',
           metadata = None\<rparr>]"
  let ?two = "generateFAQTask (demo_env [demo_record, demo_record_sure]) (demo_payload (7 / 10))"
  let ?none = "generateFAQTask (demo_env []) (demo_payload (7 / 10))"
  have exact: "?fs \<noteq> [] \<and> (\<forall>x. round_double (demo_env [demo_record, demo_record_sure]) x = x)"
    by (simp add: demo_env_def)
  note two = generateFAQTask_averageConfidence [OF demo_generateText demo_parse_response_two,
      of "demo_payload (7 / 10)"]
  note none = generateFAQTask_averageConfidence [OF demo_generateText demo_parse_response_empty,
      of "demo_payload (7 / 10)"]
  from two [THEN conjunct2, THEN conjunct2, THEN conjunct2, THEN conjunct1, THEN mp, OF exact]
  have a: "map_option averageConfidence (faq_stats ?two) = Some (Num (3 / 4))"
    by simp
  have l: "length ?fs = 2" by simp
  from two [THEN conjunct2, THEN conjunct1]
  have b: "map_option totalFaqs (faq_stats ?two) = Some 2"
    unfolding l .
  from none [THEN conjunct1] have c: "faq_success ?none" .
  from none [THEN conjunct2, THEN conjunct2, THEN conjunct2, THEN conjunct2, THEN mp, OF refl]
  have d: "map_option averageConfidence (faq_stats ?none) = Some NaN \<and>
      map_option totalFaqs (faq_stats ?none) = Some 0" .
  from a b c d [THEN conjunct1] d [THEN conjunct2] show ?thesis by (intro conjI)
qed


section \<open>Properties of the crawler\<close>

subsection \<open>One link, one page\<close>

text \<open>
  The link loop only appends, and every entry it appends is one level deeper than the page,
  on the page's host, not yet visited, free of \<open>#\<close> and not a file link.
\<close>

lemma enqueue_link_append:
  "\<exists>new. enqueue_link env seen cur d q link = q @ new \<and>
     (\<forall>e \<in> set new. depth e = d + 1 \<and>
          URL_hostname env (entry_url e) = URL_hostname env cur \<and>
          entry_url e \<notin> seen \<and> \<not> js_includes (entry_url e) ''#'' \<and>
          \<not> is_file_link (entry_url e))"
  by (auto simp: enqueue_link_def split: option.splits)

lemma enqueue_links_append:
  "\<exists>new. enqueue_links env seen cur d ls q = q @ new \<and>
     (\<forall>e \<in> set new. depth e = d + 1 \<and>
          URL_hostname env (entry_url e) = URL_hostname env cur \<and>
          entry_url e \<notin> seen \<and> \<not> js_includes (entry_url e) ''#'' \<and>
          \<not> is_file_link (entry_url e))"
proof (induction ls arbitrary: q)
  case Nil
  show ?case by (simp add: enqueue_links_def)
next
  case (Cons l ls)
  obtain n1 where n1: "enqueue_link env seen cur d q l = q @ n1"
    "\<forall>e \<in> set n1. depth e = d + 1 \<and>
          URL_hostname env (entry_url e) = URL_hostname env cur \<and>
          entry_url e \<notin> seen \<and> \<not> js_includes (entry_url e) ''#'' \<and>
          \<not> is_file_link (entry_url e)"
    using enqueue_link_append by blast
  obtain n2 where n2: "enqueue_links env seen cur d ls (q @ n1) = (q @ n1) @ n2"
    "\<forall>e \<in> set n2. depth e = d + 1 \<and>
          URL_hostname env (entry_url e) = URL_hostname env cur \<and>
          entry_url e \<notin> seen \<and> \<not> js_includes (entry_url e) ''#'' \<and>
          \<not> is_file_link (entry_url e)"
    using Cons.IH by blast
  have "enqueue_links env seen cur d (l # ls) q = q @ (n1 @ n2)"
    using n1(1) n2(1) by (simp add: enqueue_links_def)
  moreover have "\<forall>e \<in> set (n1 @ n2). depth e = d + 1 \<and>
          URL_hostname env (entry_url e) = URL_hostname env cur \<and>
          entry_url e \<notin> seen \<and> \<not> js_includes (entry_url e) ''#'' \<and>
          \<not> is_file_link (entry_url e)"
    using n1(2) n2(2) by auto
  ultimately show ?case by blast
qed

text \<open>
  What one page does to the state: \<open>visited\<close> and \<open>dequeued\<close> stay, the queue grows at the
  back by entries as above, and at most one result, for the page's own URL, is pushed.
\<close>

lemma scrape_page_effect:
  "visited (scrape_page env e st) = visited st \<and>
   dequeued (scrape_page env e st) = dequeued st \<and>
   (\<exists>new. queue (scrape_page env e st) = queue st @ new \<and>
      (\<forall>x \<in> set new. depth x = depth e + 1 \<and>
          URL_hostname env (entry_url x) = URL_hostname env (entry_url e) \<and>
          entry_url x \<notin> visited st \<and> \<not> js_includes (entry_url x) ''#'' \<and>
          \<not> is_file_link (entry_url x))) \<and>
   (results (scrape_page env e st) = results st \<or>
    (\<exists>p. results (scrape_page env e st) = results st @ [p] \<and> url p = entry_url e))"
proof (cases "load env (loads st) (entry_url e)")
  case (Fatal msg)
  then show ?thesis by (simp add: scrape_page_def)
next
  case LoadError
  then show ?thesis by (simp add: scrape_page_def)
next
  case (Loaded rawContent pageTitle rawHeadings hrefs)
  obtain new where new:
    "enqueue_links env (visited st) (entry_url e) (depth e) (filter_Boolean hrefs) (queue st)
       = queue st @ new"
    "\<forall>x \<in> set new. depth x = depth e + 1 \<and>
          URL_hostname env (entry_url x) = URL_hostname env (entry_url e) \<and>
          entry_url x \<notin> visited st \<and> \<not> js_includes (entry_url x) ''#'' \<and>
          \<not> is_file_link (entry_url x)"
    using enqueue_links_append by blast
  show ?thesis
  proof (cases "onProgress env")
    case None
    with Loaded new show ?thesis by (simp add: scrape_page_def Let_def)
  next
    case (Some f)
    show ?thesis
    proof (cases "f (Suc (length (results st)))")
      case True
      with Some Loaded new show ?thesis by (simp add: scrape_page_def Let_def)
    next
      case False
      with Some Loaded show ?thesis by (simp add: scrape_page_def Let_def)
    qed
  qed
qed

subsection \<open>The loop\<close>

lemma scrape_loop_stop:
  "\<not> (queue st \<noteq> [] \<and> real (length (results st)) < maxPages \<and> fatal st = None) \<Longrightarrow>
   scrape_loop env maxPages st = st"
  by (subst scrape_loop.simps) (simp only: if_False)

lemma scrape_loop_skip:
  "queue st \<noteq> [] \<Longrightarrow> real (length (results st)) < maxPages \<Longrightarrow> fatal st = None \<Longrightarrow>
   entry_url (hd (queue st)) \<in> visited st \<Longrightarrow>
   scrape_loop env maxPages st =
     scrape_loop env maxPages
       (st\<lparr>queue := tl (queue st), dequeued := dequeued st @ [hd (queue st)]\<rparr>)"
  by (subst scrape_loop.simps) (simp add: Let_def)

lemma scrape_loop_visit:
  "queue st \<noteq> [] \<Longrightarrow> real (length (results st)) < maxPages \<Longrightarrow> fatal st = None \<Longrightarrow>
   entry_url (hd (queue st)) \<notin> visited st \<Longrightarrow>
   scrape_loop env maxPages st =
     scrape_loop env maxPages
       (scrape_page env (hd (queue st))
          (st\<lparr>queue := tl (queue st), dequeued := dequeued st @ [hd (queue st)],
              visited := insert (entry_url (hd (queue st))) (visited st)\<rparr>))"
  by (subst scrape_loop.simps) (simp add: Let_def)

text \<open>A property kept by both kinds of iteration holds when the loop ends.\<close>

lemma scrape_loop_invariant:
  assumes init: "P st"
    and skip: "\<And>s. P s \<Longrightarrow> queue s \<noteq> [] \<Longrightarrow> real (length (results s)) < maxPages \<Longrightarrow>
        entry_url (hd (queue s)) \<in> visited s \<Longrightarrow>
        P (s\<lparr>queue := tl (queue s), dequeued := dequeued s @ [hd (queue s)]\<rparr>)"
    and visit: "\<And>s. P s \<Longrightarrow> queue s \<noteq> [] \<Longrightarrow> real (length (results s)) < maxPages \<Longrightarrow>
        entry_url (hd (queue s)) \<notin> visited s \<Longrightarrow>
        P (scrape_page env (hd (queue s))
             (s\<lparr>queue := tl (queue s), dequeued := dequeued s @ [hd (queue s)],
                visited := insert (entry_url (hd (queue s))) (visited s)\<rparr>))"
  shows "P (scrape_loop env maxPages st)"
proof -
  have "env' = env \<Longrightarrow> maxPages' = maxPages \<Longrightarrow> P st \<Longrightarrow>
        P (scrape_loop env' maxPages' st)" for env' maxPages'
  proof (induction env' maxPages' st rule: scrape_loop.induct)
    case (1 env' maxPages' st)
    note eq = "1.prems"(1,2)
    show ?case
    proof (cases "queue st \<noteq> [] \<and> real (length (results st)) < maxPages' \<and> fatal st = None")
      case False
      then have "scrape_loop env' maxPages' st = st" by (rule scrape_loop_stop)
      with "1.prems" show ?thesis by simp
    next
      case go: True
      then have go': "queue st \<noteq> []" "real (length (results st)) < maxPages" "fatal st = None"
        using eq by simp_all
      show ?thesis
      proof (cases "entry_url (hd (queue st)) \<in> visited st")
        case True
        let ?s = "st\<lparr>queue := tl (queue st), dequeued := dequeued st @ [hd (queue st)]\<rparr>"
        from "1.prems"(3) go'(1,2) True have "P ?s" by (rule skip)
        with eq have "P (scrape_loop env' maxPages' ?s)"
          by (intro "1.IH"(1)[OF go refl refl True])
        moreover from go True have "scrape_loop env' maxPages' st = scrape_loop env' maxPages' ?s"
          by (intro scrape_loop_skip) simp_all
        ultimately show ?thesis by simp
      next
        case False
        let ?s = "scrape_page env (hd (queue st))
                    (st\<lparr>queue := tl (queue st), dequeued := dequeued st @ [hd (queue st)],
                        visited := insert (entry_url (hd (queue st))) (visited st)\<rparr>)"
        let ?s' = "scrape_page env' (hd (queue st))
                    (st\<lparr>queue := tl (queue st), dequeued := dequeued st @ [hd (queue st)],
                        visited := insert (entry_url (hd (queue st))) (visited st)\<rparr>)"
        from "1.prems"(3) go'(1,2) False have "P ?s" by (rule visit)
        with eq have "P ?s'" by simp
        with eq have "P (scrape_loop env' maxPages' ?s')"
          by (intro "1.IH"(2)[OF go refl refl False])
        moreover from go False have "scrape_loop env' maxPages' st = scrape_loop env' maxPages' ?s'"
          by (intro scrape_loop_visit) simp_all
        ultimately show ?thesis by simp
      qed
    qed
  qed
  with init show ?thesis by simp
qed


subsection \<open>Invariants of the crawl\<close>

lemma scrape_loop_budget:
  assumes "length (results st) \<le> nat \<lceil>maxPages\<rceil>"
  shows "length (results (scrape_loop env maxPages st)) \<le> nat \<lceil>maxPages\<rceil>"
proof (rule scrape_loop_invariant [where P = "\<lambda>s. length (results s) \<le> nat \<lceil>maxPages\<rceil>"])
  show "length (results st) \<le> nat \<lceil>maxPages\<rceil>" by fact
next
  fix s :: scrape_state
  assume "length (results s) \<le> nat \<lceil>maxPages\<rceil>"
  then show "length (results (s\<lparr>queue := tl (queue s),
      dequeued := dequeued s @ [hd (queue s)]\<rparr>)) \<le> nat \<lceil>maxPages\<rceil>"
    by simp
next
  fix s :: scrape_state
  assume lt: "real (length (results s)) < maxPages"
  let ?s1 = "s\<lparr>queue := tl (queue s), dequeued := dequeued s @ [hd (queue s)],
                visited := insert (entry_url (hd (queue s))) (visited s)\<rparr>"
  from scrape_page_effect [of env "hd (queue s)" ?s1]
  have "results (scrape_page env (hd (queue s)) ?s1) = results ?s1 \<or>
        (\<exists>p. results (scrape_page env (hd (queue s)) ?s1) = results ?s1 @ [p] \<and>
             url p = entry_url (hd (queue s)))"
    by blast
  moreover from lt have "length (results s) < nat \<lceil>maxPages\<rceil>" by linarith
  ultimately show "length (results (scrape_page env (hd (queue s)) ?s1)) \<le> nat \<lceil>maxPages\<rceil>"
    by auto
qed

lemma scrape_loop_distinct:
  assumes "distinct (map url (results st)) \<and> url ` set (results st) \<subseteq> visited st"
  shows "distinct (map url (results (scrape_loop env maxPages st))) \<and>
         url ` set (results (scrape_loop env maxPages st)) \<subseteq> visited (scrape_loop env maxPages st)"
proof (rule scrape_loop_invariant
    [where P = "\<lambda>s. distinct (map url (results s)) \<and> url ` set (results s) \<subseteq> visited s"])
  show "distinct (map url (results st)) \<and> url ` set (results st) \<subseteq> visited st" by fact
next
  fix s :: scrape_state
  let ?s1 = "s\<lparr>queue := tl (queue s), dequeued := dequeued s @ [hd (queue s)]\<rparr>"
  assume "distinct (map url (results s)) \<and> url ` set (results s) \<subseteq> visited s"
  then show "distinct (map url (results ?s1)) \<and> url ` set (results ?s1) \<subseteq> visited ?s1"
    by simp
next
  fix s :: scrape_state
  assume inv: "distinct (map url (results s)) \<and> url ` set (results s) \<subseteq> visited s"
    and new: "entry_url (hd (queue s)) \<notin> visited s"
  let ?u = "entry_url (hd (queue s))"
  let ?s1 = "s\<lparr>queue := tl (queue s), dequeued := dequeued s @ [hd (queue s)],
                visited := insert ?u (visited s)\<rparr>"
  let ?s2 = "scrape_page env (hd (queue s)) ?s1"
  from scrape_page_effect [of env "hd (queue s)" ?s1]
  have v: "visited ?s2 = insert ?u (visited s)"
    and r: "results ?s2 = results s \<or> (\<exists>p. results ?s2 = results s @ [p] \<and> url p = ?u)"
    by simp_all
  from inv new have fresh: "?u \<notin> url ` set (results s)" by blast
  from r show "distinct (map url (results ?s2)) \<and> url ` set (results ?s2) \<subseteq> visited ?s2"
  proof
    assume "results ?s2 = results s"
    with inv v show ?thesis by auto
  next
    assume "\<exists>p. results ?s2 = results s @ [p] \<and> url p = ?u"
    then obtain p where p: "results ?s2 = results s @ [p]" "url p = ?u" by blast
    have "distinct (map url (results s @ [p]))" using inv fresh p(2) by simp
    moreover have "url ` set (results s @ [p]) \<subseteq> insert ?u (visited s)"
      using inv p(2) by auto
    ultimately show ?thesis by (simp only: p(1) v)
  qed
qed

lemma scrape_loop_same_host:
  assumes "(\<forall>e \<in> set (dequeued st @ queue st). URL_hostname env (entry_url e) = h) \<and>
           (\<forall>p \<in> set (results st). URL_hostname env (url p) = h)"
  shows "(\<forall>e \<in> set (dequeued (scrape_loop env maxPages st) @ queue (scrape_loop env maxPages st)).
            URL_hostname env (entry_url e) = h) \<and>
         (\<forall>p \<in> set (results (scrape_loop env maxPages st)). URL_hostname env (url p) = h)"
proof (rule scrape_loop_invariant
    [where P = "\<lambda>s. (\<forall>e \<in> set (dequeued s @ queue s). URL_hostname env (entry_url e) = h) \<and>
                     (\<forall>p \<in> set (results s). URL_hostname env (url p) = h)"])
  show "(\<forall>e \<in> set (dequeued st @ queue st). URL_hostname env (entry_url e) = h) \<and>
        (\<forall>p \<in> set (results st). URL_hostname env (url p) = h)" by fact
next
  fix s :: scrape_state
  let ?s1 = "s\<lparr>queue := tl (queue s), dequeued := dequeued s @ [hd (queue s)]\<rparr>"
  assume inv: "(\<forall>e \<in> set (dequeued s @ queue s). URL_hostname env (entry_url e) = h) \<and>
        (\<forall>p \<in> set (results s). URL_hostname env (url p) = h)"
    and ne: "queue s \<noteq> []"
  from ne have "dequeued ?s1 @ queue ?s1 = dequeued s @ queue s" by simp
  with inv show "(\<forall>e \<in> set (dequeued ?s1 @ queue ?s1). URL_hostname env (entry_url e) = h) \<and>
        (\<forall>p \<in> set (results ?s1). URL_hostname env (url p) = h)"
    by simp
next
  fix s :: scrape_state
  assume inv: "(\<forall>e \<in> set (dequeued s @ queue s). URL_hostname env (entry_url e) = h) \<and>
        (\<forall>p \<in> set (results s). URL_hostname env (url p) = h)"
    and ne: "queue s \<noteq> []"
  let ?u = "entry_url (hd (queue s))"
  let ?s1 = "s\<lparr>queue := tl (queue s), dequeued := dequeued s @ [hd (queue s)],
                visited := insert ?u (visited s)\<rparr>"
  let ?s2 = "scrape_page env (hd (queue s)) ?s1"
  from ne inv have hu: "URL_hostname env ?u = h" by simp
  from scrape_page_effect [of env "hd (queue s)" ?s1]
  obtain new where d: "dequeued ?s2 = dequeued s @ [hd (queue s)]"
    and q: "queue ?s2 = tl (queue s) @ new"
    and n: "\<forall>x \<in> set new. URL_hostname env (entry_url x) = URL_hostname env ?u"
    and r: "results ?s2 = results s \<or> (\<exists>p. results ?s2 = results s @ [p] \<and> url p = ?u)"
    by auto
  from ne have "dequeued ?s2 @ queue ?s2 = (dequeued s @ queue s) @ new"
    by (simp add: d q)
  with inv n hu
  have a: "\<forall>e \<in> set (dequeued ?s2 @ queue ?s2). URL_hostname env (entry_url e) = h"
    by auto
  from r inv hu have b: "\<forall>p \<in> set (results ?s2). URL_hostname env (url p) = h"
    by auto
  from a b show "(\<forall>e \<in> set (dequeued ?s2 @ queue ?s2). URL_hostname env (entry_url e) = h) \<and>
        (\<forall>p \<in> set (results ?s2). URL_hostname env (url p) = h)" ..
qed

lemma scrape_loop_no_fragment:
  assumes "\<forall>e \<in> set (dequeued st @ queue st).
             entry_url e = startUrl \<or> \<not> js_includes (entry_url e) ''#''"
  shows "\<forall>e \<in> set (dequeued (scrape_loop env maxPages st) @ queue (scrape_loop env maxPages st)).
             entry_url e = startUrl \<or> \<not> js_includes (entry_url e) ''#''"
proof (rule scrape_loop_invariant
    [where P = "\<lambda>s. \<forall>e \<in> set (dequeued s @ queue s).
                     entry_url e = startUrl \<or> \<not> js_includes (entry_url e) ''#''"])
  show "\<forall>e \<in> set (dequeued st @ queue st).
          entry_url e = startUrl \<or> \<not> js_includes (entry_url e) ''#''" by fact
next
  fix s :: scrape_state
  let ?s1 = "s\<lparr>queue := tl (queue s), dequeued := dequeued s @ [hd (queue s)]\<rparr>"
  assume inv: "\<forall>e \<in> set (dequeued s @ queue s).
          entry_url e = startUrl \<or> \<not> js_includes (entry_url e) ''#''"
    and ne: "queue s \<noteq> []"
  from ne have "dequeued ?s1 @ queue ?s1 = dequeued s @ queue s" by simp
  with inv show "\<forall>e \<in> set (dequeued ?s1 @ queue ?s1).
          entry_url e = startUrl \<or> \<not> js_includes (entry_url e) ''#''"
    by simp
next
  fix s :: scrape_state
  assume inv: "\<forall>e \<in> set (dequeued s @ queue s).
          entry_url e = startUrl \<or> \<not> js_includes (entry_url e) ''#''"
    and ne: "queue s \<noteq> []"
  let ?u = "entry_url (hd (queue s))"
  let ?s1 = "s\<lparr>queue := tl (queue s), dequeued := dequeued s @ [hd (queue s)],
                visited := insert ?u (visited s)\<rparr>"
  let ?s2 = "scrape_page env (hd (queue s)) ?s1"
  from scrape_page_effect [of env "hd (queue s)" ?s1]
  obtain new where d: "dequeued ?s2 = dequeued s @ [hd (queue s)]"
    and q: "queue ?s2 = tl (queue s) @ new"
    and n: "\<forall>x \<in> set new. \<not> js_includes (entry_url x) ''#''"
    by auto
  from ne have "dequeued ?s2 @ queue ?s2 = (dequeued s @ queue s) @ new"
    by (simp add: d q)
  with inv n show "\<forall>e \<in> set (dequeued ?s2 @ queue ?s2).
          entry_url e = startUrl \<or> \<not> js_includes (entry_url e) ''#''"
    by auto
qed

text \<open>
  The breadth-first shape of the queue: the entries taken so far followed by the entries
  still waiting are ordered by depth, and the waiting ones span at most two levels.
\<close>

lemma bfs_push:
  assumes s: "sorted (map depth (ds @ q))"
    and ne: "q \<noteq> []"
    and span: "\<forall>e \<in> set q. \<forall>e' \<in> set q. depth e' \<le> Suc (depth e)"
    and new: "\<forall>x \<in> set new. depth x = Suc (depth (hd q))"
  shows "sorted (map depth ((ds @ [hd q]) @ (tl q @ new))) \<and>
         (\<forall>e \<in> set (tl q @ new). \<forall>e' \<in> set (tl q @ new). depth e' \<le> Suc (depth e))"
proof -
  from ne obtain h t where q: "q = h # t" by (cases q) auto
  from s q have ds: "\<forall>x \<in> set ds. depth x \<le> depth h"
    and t: "\<forall>x \<in> set t. depth h \<le> depth x"
    and st: "sorted (map depth ds)" "sorted (map depth t)"
    and dt: "\<forall>x \<in> set ds. \<forall>y \<in> set t. depth x \<le> depth y"
    by (auto simp: sorted_append)
  from span q have up: "\<forall>x \<in> set t. depth x \<le> Suc (depth h)" by simp
  from new q have nw: "\<forall>x \<in> set new. depth x = Suc (depth h)" by simp
  have "sorted (map depth new)"
    using nw by (induction new) auto
  with st ds t dt up nw have "sorted (map depth (ds @ [h] @ t @ new))"
    by (auto simp: sorted_append)
  moreover have "\<forall>e \<in> set (t @ new). \<forall>e' \<in> set (t @ new). depth e' \<le> Suc (depth e)"
  proof (intro ballI)
    fix e e' assume e: "e \<in> set (t @ new)" and e': "e' \<in> set (t @ new)"
    from e t nw have "depth h \<le> depth e" by auto
    moreover from e' up nw have "depth e' \<le> Suc (depth h)" by auto
    ultimately show "depth e' \<le> Suc (depth e)" by simp
  qed
  ultimately show ?thesis using q by simp
qed

lemma scrape_loop_bfs:
  assumes "sorted (map depth (dequeued st @ queue st)) \<and>
           (\<forall>e \<in> set (queue st). \<forall>e' \<in> set (queue st). depth e' \<le> Suc (depth e))"
  shows "sorted (map depth (dequeued (scrape_loop env maxPages st) @ queue (scrape_loop env maxPages st)))"
proof -
  have "sorted (map depth (dequeued (scrape_loop env maxPages st) @ queue (scrape_loop env maxPages st))) \<and>
        (\<forall>e \<in> set (queue (scrape_loop env maxPages st)).
           \<forall>e' \<in> set (queue (scrape_loop env maxPages st)). depth e' \<le> Suc (depth e))"
  proof (rule scrape_loop_invariant
      [where P = "\<lambda>s. sorted (map depth (dequeued s @ queue s)) \<and>
                     (\<forall>e \<in> set (queue s). \<forall>e' \<in> set (queue s). depth e' \<le> Suc (depth e))"])
    show "sorted (map depth (dequeued st @ queue st)) \<and>
          (\<forall>e \<in> set (queue st). \<forall>e' \<in> set (queue st). depth e' \<le> Suc (depth e))" by fact
  next
    fix s :: scrape_state
    let ?s1 = "s\<lparr>queue := tl (queue s), dequeued := dequeued s @ [hd (queue s)]\<rparr>"
    assume inv: "sorted (map depth (dequeued s @ queue s)) \<and>
          (\<forall>e \<in> set (queue s). \<forall>e' \<in> set (queue s). depth e' \<le> Suc (depth e))"
      and ne: "queue s \<noteq> []"
    have "\<forall>x \<in> set ([] :: FrontierEntry list). depth x = Suc (depth (hd (queue s)))" by simp
    with inv ne have "sorted (map depth ((dequeued s @ [hd (queue s)]) @ (tl (queue s) @ []))) \<and>
          (\<forall>e \<in> set (tl (queue s) @ []). \<forall>e' \<in> set (tl (queue s) @ []). depth e' \<le> Suc (depth e))"
      by (intro bfs_push) blast+
    then show "sorted (map depth (dequeued ?s1 @ queue ?s1)) \<and>
          (\<forall>e \<in> set (queue ?s1). \<forall>e' \<in> set (queue ?s1). depth e' \<le> Suc (depth e))"
      by simp
  next
    fix s :: scrape_state
    assume inv: "sorted (map depth (dequeued s @ queue s)) \<and>
          (\<forall>e \<in> set (queue s). \<forall>e' \<in> set (queue s). depth e' \<le> Suc (depth e))"
      and ne: "queue s \<noteq> []"
    let ?u = "entry_url (hd (queue s))"
    let ?s1 = "s\<lparr>queue := tl (queue s), dequeued := dequeued s @ [hd (queue s)],
                  visited := insert ?u (visited s)\<rparr>"
    let ?s2 = "scrape_page env (hd (queue s)) ?s1"
    from scrape_page_effect [of env "hd (queue s)" ?s1]
    obtain new where d: "dequeued ?s2 = dequeued s @ [hd (queue s)]"
      and q: "queue ?s2 = tl (queue s) @ new"
      and n: "\<forall>x \<in> set new. depth x = Suc (depth (hd (queue s)))"
      by auto
    from inv ne n have "sorted (map depth ((dequeued s @ [hd (queue s)]) @ (tl (queue s) @ new))) \<and>
          (\<forall>e \<in> set (tl (queue s) @ new). \<forall>e' \<in> set (tl (queue s) @ new). depth e' \<le> Suc (depth e))"
      by (intro bfs_push) blast+
    then show "sorted (map depth (dequeued ?s2 @ queue ?s2)) \<and>
          (\<forall>e \<in> set (queue ?s2). \<forall>e' \<in> set (queue ?s2). depth e' \<le> Suc (depth e))"
      unfolding d q by blast
  qed
  then show ?thesis ..
qed


subsection \<open>The task's loop\<close>

lemma task_page_effect:
  "t_results (task_page env u st) = t_results st \<and> t_visited st \<subseteq> t_visited (task_page env u st)
   \<or> (\<exists>p. t_results (task_page env u st) = t_results st @ [p] \<and> url p = u \<and>
           t_visited (task_page env u st) = insert u (t_visited st))"
  by (cases "visit env (visits st) u") (auto simp: task_page_def Let_def)

lemma task_loop_stop:
  "\<not> (toVisit st \<noteq> [] \<and> real (length (t_results st)) < maxPages) \<Longrightarrow> task_loop env maxPages st = st"
  by (subst task_loop.simps) (simp only: if_False)

lemma task_loop_skip:
  "toVisit st \<noteq> [] \<Longrightarrow> real (length (t_results st)) < maxPages \<Longrightarrow> hd (toVisit st) \<in> t_visited st \<Longrightarrow>
   task_loop env maxPages st = task_loop env maxPages (st\<lparr>toVisit := tl (toVisit st)\<rparr>)"
  by (subst task_loop.simps) (simp add: Let_def)

lemma task_loop_visit:
  "toVisit st \<noteq> [] \<Longrightarrow> real (length (t_results st)) < maxPages \<Longrightarrow> hd (toVisit st) \<notin> t_visited st \<Longrightarrow>
   task_loop env maxPages st =
     task_loop env maxPages (task_page env (hd (toVisit st)) (st\<lparr>toVisit := tl (toVisit st)\<rparr>))"
  by (subst task_loop.simps) (simp add: Let_def)

lemma task_loop_invariant:
  assumes init: "P st"
    and skip: "\<And>s. P s \<Longrightarrow> toVisit s \<noteq> [] \<Longrightarrow> real (length (t_results s)) < maxPages \<Longrightarrow>
        hd (toVisit s) \<in> t_visited s \<Longrightarrow> P (s\<lparr>toVisit := tl (toVisit s)\<rparr>)"
    and visit: "\<And>s. P s \<Longrightarrow> toVisit s \<noteq> [] \<Longrightarrow> real (length (t_results s)) < maxPages \<Longrightarrow>
        hd (toVisit s) \<notin> t_visited s \<Longrightarrow>
        P (task_page env (hd (toVisit s)) (s\<lparr>toVisit := tl (toVisit s)\<rparr>))"
  shows "P (task_loop env maxPages st)"
proof -
  have "env' = env \<Longrightarrow> maxPages' = maxPages \<Longrightarrow> P st \<Longrightarrow>
        P (task_loop env' maxPages' st)" for env' maxPages'
  proof (induction env' maxPages' st rule: task_loop.induct)
    case (1 env' maxPages' st)
    note eq = "1.prems"(1,2)
    show ?case
    proof (cases "toVisit st \<noteq> [] \<and> real (length (t_results st)) < maxPages'")
      case False
      then have "task_loop env' maxPages' st = st" by (rule task_loop_stop)
      with "1.prems" show ?thesis by simp
    next
      case go: True
      then have go': "toVisit st \<noteq> []" "real (length (t_results st)) < maxPages"
        using eq by simp_all
      show ?thesis
      proof (cases "hd (toVisit st) \<in> t_visited st")
        case True
        let ?s = "st\<lparr>toVisit := tl (toVisit st)\<rparr>"
        from "1.prems"(3) go' True have "P ?s" by (rule skip)
        with eq have "P (task_loop env' maxPages' ?s)"
          by (intro "1.IH"(1)[OF go refl refl True])
        moreover from go True have "task_loop env' maxPages' st = task_loop env' maxPages' ?s"
          by (intro task_loop_skip) simp_all
        ultimately show ?thesis by simp
      next
        case False
        let ?s = "task_page env (hd (toVisit st)) (st\<lparr>toVisit := tl (toVisit st)\<rparr>)"
        let ?s' = "task_page env' (hd (toVisit st)) (st\<lparr>toVisit := tl (toVisit st)\<rparr>)"
        from "1.prems"(3) go' False have "P ?s" by (rule visit)
        with eq have "P ?s'" by simp
        with eq have "P (task_loop env' maxPages' ?s')"
          by (intro "1.IH"(2)[OF go refl refl False])
        moreover from go False have "task_loop env' maxPages' st = task_loop env' maxPages' ?s'"
          by (intro task_loop_visit) simp_all
        ultimately show ?thesis by simp
      qed
    qed
  qed
  with init show ?thesis by simp
qed

lemma task_loop_budget:
  assumes "length (t_results st) \<le> nat \<lceil>maxPages\<rceil>"
  shows "length (t_results (task_loop env maxPages st)) \<le> nat \<lceil>maxPages\<rceil>"
proof (rule task_loop_invariant [where P = "\<lambda>s. length (t_results s) \<le> nat \<lceil>maxPages\<rceil>"])
  show "length (t_results st) \<le> nat \<lceil>maxPages\<rceil>" by fact
next
  fix s :: task_state
  assume "length (t_results s) \<le> nat \<lceil>maxPages\<rceil>"
  then show "length (t_results (s\<lparr>toVisit := tl (toVisit s)\<rparr>)) \<le> nat \<lceil>maxPages\<rceil>" by simp
next
  fix s :: task_state
  assume lt: "real (length (t_results s)) < maxPages"
  let ?s1 = "s\<lparr>toVisit := tl (toVisit s)\<rparr>"
  from lt have "length (t_results s) < nat \<lceil>maxPages\<rceil>" by linarith
  with task_page_effect [of env "hd (toVisit s)" ?s1]
  show "length (t_results (task_page env (hd (toVisit s)) ?s1)) \<le> nat \<lceil>maxPages\<rceil>"
    by auto
qed

lemma task_loop_distinct:
  assumes "distinct (map url (t_results st)) \<and> url ` set (t_results st) \<subseteq> t_visited st"
  shows "distinct (map url (t_results (task_loop env maxPages st))) \<and>
         url ` set (t_results (task_loop env maxPages st)) \<subseteq> t_visited (task_loop env maxPages st)"
proof (rule task_loop_invariant
    [where P = "\<lambda>s. distinct (map url (t_results s)) \<and> url ` set (t_results s) \<subseteq> t_visited s"])
  show "distinct (map url (t_results st)) \<and> url ` set (t_results st) \<subseteq> t_visited st" by fact
next
  fix s :: task_state
  let ?s1 = "s\<lparr>toVisit := tl (toVisit s)\<rparr>"
  assume "distinct (map url (t_results s)) \<and> url ` set (t_results s) \<subseteq> t_visited s"
  then show "distinct (map url (t_results ?s1)) \<and> url ` set (t_results ?s1) \<subseteq> t_visited ?s1"
    by simp
next
  fix s :: task_state
  assume inv: "distinct (map url (t_results s)) \<and> url ` set (t_results s) \<subseteq> t_visited s"
    and new: "hd (toVisit s) \<notin> t_visited s"
  let ?u = "hd (toVisit s)"
  let ?s1 = "s\<lparr>toVisit := tl (toVisit s)\<rparr>"
  let ?s2 = "task_page env ?u ?s1"
  from inv new have fresh: "?u \<notin> url ` set (t_results s)" by blast
  from task_page_effect [of env ?u ?s1]
  have "t_results ?s2 = t_results s \<and> t_visited s \<subseteq> t_visited ?s2
        \<or> (\<exists>p. t_results ?s2 = t_results s @ [p] \<and> url p = ?u \<and>
                t_visited ?s2 = insert ?u (t_visited s))"
    by simp
  then show "distinct (map url (t_results ?s2)) \<and> url ` set (t_results ?s2) \<subseteq> t_visited ?s2"
  proof
    assume "t_results ?s2 = t_results s \<and> t_visited s \<subseteq> t_visited ?s2"
    with inv show ?thesis by auto
  next
    assume "\<exists>p. t_results ?s2 = t_results s @ [p] \<and> url p = ?u \<and>
                t_visited ?s2 = insert ?u (t_visited s)"
    then obtain p where p: "t_results ?s2 = t_results s @ [p]" "url p = ?u"
      and v: "t_visited ?s2 = insert ?u (t_visited s)" by blast
    have "distinct (map url (t_results s @ [p]))" using inv fresh p(2) by simp
    moreover have "url ` set (t_results s @ [p]) \<subseteq> insert ?u (t_visited s)"
      using inv p(2) by auto
    ultimately show ?thesis by (simp only: p(1) v)
  qed
qed


subsection \<open>The crawl as a whole\<close>

lemma initial_results: "results (initial_state startUrl) = []"
  by (simp add: initial_state_def)

lemma scrape_run_budget:
  "length (results (scrape_run env startUrl maxPages)) \<le> nat \<lceil>maxPages\<rceil>"
  unfolding scrape_run_def by (rule scrape_loop_budget) (simp add: initial_state_def)

lemma scrape_run_distinct:
  "distinct (map url (results (scrape_run env startUrl maxPages))) \<and>
   url ` set (results (scrape_run env startUrl maxPages)) \<subseteq> visited (scrape_run env startUrl maxPages)"
  unfolding scrape_run_def by (rule scrape_loop_distinct) (simp add: initial_state_def)

lemma task_run_budget:
  "length (t_results (task_run env payload)) \<le> nat \<lceil>payload_maxPages payload\<rceil>"
  unfolding task_run_def by (rule task_loop_budget) (simp add: task_initial_def)

lemma task_run_distinct: "distinct (map url (t_results (task_run env payload)))"
proof -
  have "distinct (map url (t_results (task_run env payload))) \<and>
        url ` set (t_results (task_run env payload)) \<subseteq> t_visited (task_run env payload)"
    unfolding task_run_def by (rule task_loop_distinct) (simp add: task_initial_def)
  then show ?thesis ..
qed

lemma scrapeWebsite_pages:
  "scrapeWebsite env startUrl maxPages = Inr ps \<Longrightarrow> ps = results (scrape_run env startUrl maxPages)"
  by (auto simp: scrapeWebsite_def Let_def split: if_splits option.splits)

lemma scrapeWebsiteTask_pages:
  "task_pages (scrapeWebsiteTask env payload) = Some ps \<Longrightarrow> ps = t_results (task_run env payload)"
  by (auto simp: scrapeWebsiteTask_def task_failure_def Let_def split: option.splits)

text \<open>
  In \<open>scrapeWebsite\<close> every entry that was ever in the queue, and so every page returned, is
  on the host of the seed URL: a link is pushed only when \<open>new URL(link).hostname\<close> equals
  the host name of the page it was found on.
\<close>

lemma scrapeWebsite_same_host:
  "(\<forall>e \<in> set (dequeued (scrape_run env startUrl maxPages) @ queue (scrape_run env startUrl maxPages)).
      URL_hostname env (entry_url e) = URL_hostname env startUrl) \<and>
   (\<forall>p \<in> set (results (scrape_run env startUrl maxPages)).
      URL_hostname env (url p) = URL_hostname env startUrl)"
  unfolding scrape_run_def by (rule scrape_loop_same_host) (simp add: initial_state_def)

text \<open>
  Claim C3 fails for the task's own loop.  The page filter keeps an anchor when its \<open>href\<close>
  contains the page's host name as a substring, so from the seed \<open>https://example.com/\<close> the
  link to \<open>https://example.com.evil.org/login\<close> is put on \<open>toVisit\<close>, visited, and returned
  as a page of a successful result.
\<close>

theorem scrapeWebsiteTask_follows_lookalike_host:
  "task_success (scrapeWebsiteTask lookalike_site demo_task_payload) \<and>
   map_option (map url) (task_pages (scrapeWebsiteTask lookalike_site demo_task_payload)) =
     Some [''https://example.com/'', ''https://example.com/about'',
           ''https://example.com.evil.org/login'']"
  by code_simp

text \<open>
  Counterexample to claim C4 as stated: \<open>maxPages\<close> is a number and nothing makes it an
  integer.  With a budget of 1.5 pages \<open>scrapeWebsite\<close> returns two pages of the small site,
  and with a budget of 2.5 pages the task returns three.
\<close>

theorem crawl_fractional_budget_cex:
  "map_sum id (map url) (scrapeWebsite demo_site ''https://example.com/'' (3 / 2)) =
     Inr [''https://example.com/'', ''https://example.com/a''] \<and>
   payload_maxPages fractional_payload = 5 / 2 \<and>
   map_option (map url) (task_pages (scrapeWebsiteTask lookalike_site fractional_payload)) =
     Some [''https://example.com/'', ''https://example.com/about'',
           ''https://example.com.evil.org/login'']"
  by code_simp

text \<open>
  Claim C4 (amended): the number of pages never exceeds \<open>maxPages\<close> rounded up to the next
  integer (and is 0 for a budget that is not positive), in the state in which the loop of
  \<open>scrapeWebsite\<close> ends, in the list \<open>scrapeWebsite\<close> returns, and in the pages of the result
  of \<open>scrapeWebsiteTask\<close>; hence it never exceeds \<open>maxPages\<close> when that is a natural number.
\<close>

theorem crawl_page_budget:
  "length (results (scrape_run env startUrl maxPages)) \<le> nat \<lceil>maxPages\<rceil> \<and>
   (\<forall>ps. scrapeWebsite env startUrl maxPages = Inr ps \<longrightarrow>
      length ps \<le> nat \<lceil>maxPages\<rceil> \<and> (\<forall>n. maxPages = real n \<longrightarrow> length ps \<le> n)) \<and>
   (\<forall>ps. task_pages (scrapeWebsiteTask tenv payload) = Some ps \<longrightarrow>
      length ps \<le> nat \<lceil>payload_maxPages payload\<rceil> \<and>
      (\<forall>n. payload_maxPages payload = real n \<longrightarrow> length ps \<le> n))"
proof (intro conjI allI impI)
  show "length (results (scrape_run env startUrl maxPages)) \<le> nat \<lceil>maxPages\<rceil>"
    by (rule scrape_run_budget)
next
  fix ps assume "scrapeWebsite env startUrl maxPages = Inr ps"
  then have "ps = results (scrape_run env startUrl maxPages)" by (rule scrapeWebsite_pages)
  then show le: "length ps \<le> nat \<lceil>maxPages\<rceil>" by (simp add: scrape_run_budget)
  fix n :: nat assume "maxPages = real n"
  with le show "length ps \<le> n" by simp
next
  fix ps assume "task_pages (scrapeWebsiteTask tenv payload) = Some ps"
  then have "ps = t_results (task_run tenv payload)" by (rule scrapeWebsiteTask_pages)
  then show le: "length ps \<le> nat \<lceil>payload_maxPages payload\<rceil>"
    by (simp add: task_run_budget)
  fix n :: nat assume "payload_maxPages payload = real n"
  with le show "length ps \<le> n" by simp
qed

text \<open>
  Witness for C4: with a budget of one page the crawl of the small site returns one page,
  although three links are waiting; the task returns three pages under a budget of five.
\<close>

theorem crawl_page_budget_witness:
  "(\<exists>ps. scrapeWebsite demo_site ''https://example.com/'' 1 = Inr ps \<and> length ps = 1 \<and>
         length ps \<le> 1) \<and>
   length (queue (scrape_run demo_site ''https://example.com/'' 1)) = 3 \<and>
   (\<exists>ps. task_pages (scrapeWebsiteTask lookalike_site demo_task_payload) = Some ps \<and>
         length ps \<le> 5)"
proof -
  obtain ps where ps: "scrapeWebsite demo_site ''https://example.com/'' 1 = Inr ps" "length ps = 1"
  proof
    show "scrapeWebsite demo_site ''https://example.com/'' 1 =
            Inr (results (scrape_run demo_site ''https://example.com/'' 1))"
      by code_simp
    show "length (results (scrape_run demo_site ''https://example.com/'' 1)) = 1"
      by code_simp
  qed
  obtain qs where qs: "task_pages (scrapeWebsiteTask lookalike_site demo_task_payload) = Some qs"
  proof
    show "task_pages (scrapeWebsiteTask lookalike_site demo_task_payload) =
            Some (t_results (task_run lookalike_site demo_task_payload))"
      by code_simp
  qed
  have q3: "length (queue (scrape_run demo_site ''https://example.com/'' 1)) = 3"
    by code_simp
  have one: "(1::real) = real (1::nat)" by simp
  have five: "payload_maxPages demo_task_payload = real (5::nat)"
    by (simp add: demo_task_payload_def)
  note all = crawl_page_budget
    [of demo_site "''https://example.com/''" 1 lookalike_site demo_task_payload]
  from all [THEN conjunct2, THEN conjunct1, THEN spec, THEN mp, OF ps(1), THEN conjunct2,
    THEN spec, THEN mp, OF one]
  have "length ps \<le> 1" .
  moreover
  from all [THEN conjunct2, THEN conjunct2, THEN spec, THEN mp, OF qs, THEN conjunct2,
    THEN spec, THEN mp, OF five]
  have "length qs \<le> 5" .
  ultimately show ?thesis using ps qs q3 by (intro conjI exI [of _ ps] exI [of _ qs])
qed


text \<open>
  Claim C5: no URL appears twice among the pages, and every page's URL is in the visited
  set (a set, so it holds no duplicates), for \<open>scrapeWebsite\<close> and for \<open>scrapeWebsiteTask\<close>;
  an iteration that takes an already visited URL from the queue changes nothing else and
  the loop goes on.
\<close>

theorem crawl_no_duplicate_urls:
  "distinct (map url (results (scrape_run env startUrl maxPages))) \<and>
   url ` set (results (scrape_run env startUrl maxPages))
     \<subseteq> visited (scrape_run env startUrl maxPages) \<and>
   (\<forall>ps. scrapeWebsite env startUrl maxPages = Inr ps \<longrightarrow> distinct (map url ps)) \<and>
   (\<forall>ps. task_pages (scrapeWebsiteTask tenv payload) = Some ps \<longrightarrow> distinct (map url ps)) \<and>
   (\<forall>s. queue s \<noteq> [] \<and> real (length (results s)) < maxPages \<and> fatal s = None \<and>
        entry_url (hd (queue s)) \<in> visited s \<longrightarrow>
        scrape_loop env maxPages s =
          scrape_loop env maxPages
            (s\<lparr>queue := tl (queue s), dequeued := dequeued s @ [hd (queue s)]\<rparr>)) \<and>
   (\<forall>s. toVisit s \<noteq> [] \<and> real (length (t_results s)) < maxPages \<and> hd (toVisit s) \<in> t_visited s \<longrightarrow>
        task_loop tenv maxPages s = task_loop tenv maxPages (s\<lparr>toVisit := tl (toVisit s)\<rparr>))"
proof (intro conjI allI impI)
  show "distinct (map url (results (scrape_run env startUrl maxPages)))"
    using scrape_run_distinct by blast
  show "url ` set (results (scrape_run env startUrl maxPages))
          \<subseteq> visited (scrape_run env startUrl maxPages)"
    using scrape_run_distinct by blast
next
  fix ps assume "scrapeWebsite env startUrl maxPages = Inr ps"
  then have "ps = results (scrape_run env startUrl maxPages)" by (rule scrapeWebsite_pages)
  then show "distinct (map url ps)" using scrape_run_distinct by blast
next
  fix ps assume "task_pages (scrapeWebsiteTask tenv payload) = Some ps"
  then have "ps = t_results (task_run tenv payload)" by (rule scrapeWebsiteTask_pages)
  then show "distinct (map url ps)" by (simp add: task_run_distinct)
next
  fix s :: scrape_state
  assume "queue s \<noteq> [] \<and> real (length (results s)) < maxPages \<and> fatal s = None \<and>
        entry_url (hd (queue s)) \<in> visited s"
  then show "scrape_loop env maxPages s =
          scrape_loop env maxPages
            (s\<lparr>queue := tl (queue s), dequeued := dequeued s @ [hd (queue s)]\<rparr>)"
    by (intro scrape_loop_skip) blast+
next
  fix s :: task_state
  assume "toVisit s \<noteq> [] \<and> real (length (t_results s)) < maxPages \<and> hd (toVisit s) \<in> t_visited s"
  then show "task_loop tenv maxPages s = task_loop tenv maxPages (s\<lparr>toVisit := tl (toVisit s)\<rparr>)"
    by (intro task_loop_skip) blast+
qed

text \<open>
  Witness for C5: on the small site \<open>/a\<close> and \<open>/b\<close> are each taken from the queue twice and
  each yields at most one page; the task returns three pages with three different URLs; and
  an iteration that finds the visited home page on the queue only takes it off.
\<close>

theorem crawl_no_duplicate_urls_witness:
  "map entry_url (dequeued (scrape_run demo_site ''https://example.com/'' 5)) =
     [''https://example.com/'', ''https://example.com/a'', ''https://example.com/b'',
      ''https://example.com/a'', ''https://example.com/b''] \<and>
   (\<exists>ps. scrapeWebsite demo_site ''https://example.com/'' 5 = Inr ps \<and>
         map url ps = [''https://example.com/'', ''https://example.com/a''] \<and>
         distinct (map url ps)) \<and>
   (\<exists>ps. task_pages (scrapeWebsiteTask lookalike_site demo_task_payload) = Some ps \<and>
         length ps = 3 \<and> distinct (map url ps)) \<and>
   entry_url (hd (queue revisit_state)) \<in> visited revisit_state \<and>
   scrape_loop demo_site 5 revisit_state =
     scrape_loop demo_site 5
       (revisit_state\<lparr>queue := tl (queue revisit_state),
          dequeued := dequeued revisit_state @ [hd (queue revisit_state)]\<rparr>) \<and>
   results (scrape_loop demo_site 5 revisit_state) = []"
proof -
  have d: "map entry_url (dequeued (scrape_run demo_site ''https://example.com/'' 5)) =
     [''https://example.com/'', ''https://example.com/a'', ''https://example.com/b'',
      ''https://example.com/a'', ''https://example.com/b'']"
    by code_simp
  obtain ps where ps: "scrapeWebsite demo_site ''https://example.com/'' 5 = Inr ps"
    "map url ps = [''https://example.com/'', ''https://example.com/a'']"
  proof
    show "scrapeWebsite demo_site ''https://example.com/'' 5 =
            Inr (results (scrape_run demo_site ''https://example.com/'' 5))"
      by code_simp
    show "map url (results (scrape_run demo_site ''https://example.com/'' 5)) =
            [''https://example.com/'', ''https://example.com/a'']"
      by code_simp
  qed
  obtain qs where qs: "task_pages (scrapeWebsiteTask lookalike_site demo_task_payload) = Some qs"
    "length qs = 3"
  proof
    show "task_pages (scrapeWebsiteTask lookalike_site demo_task_payload) =
            Some (t_results (task_run lookalike_site demo_task_payload))"
      by code_simp
    show "length (t_results (task_run lookalike_site demo_task_payload)) = 3"
      by code_simp
  qed
  note all = crawl_no_duplicate_urls
    [of demo_site "''https://example.com/''" 5 lookalike_site demo_task_payload]
  from all [THEN conjunct2, THEN conjunct2, THEN conjunct1, THEN spec, THEN mp, OF ps(1)]
  have "distinct (map url ps)" .
  moreover
  from all [THEN conjunct2, THEN conjunct2, THEN conjunct2, THEN conjunct1, THEN spec, THEN mp,
    OF qs(1)]
  have "distinct (map url qs)" .
  moreover
  have pre: "queue revisit_state \<noteq> [] \<and> real (length (results revisit_state)) < 5 \<and>
      fatal revisit_state = None \<and> entry_url (hd (queue revisit_state)) \<in> visited revisit_state"
    by (simp add: revisit_state_def)
  from all [THEN conjunct2, THEN conjunct2, THEN conjunct2, THEN conjunct2, THEN conjunct1,
    THEN spec, THEN mp, OF pre]
  have "scrape_loop demo_site 5 revisit_state =
     scrape_loop demo_site 5
       (revisit_state\<lparr>queue := tl (queue revisit_state),
          dequeued := dequeued revisit_state @ [hd (queue revisit_state)]\<rparr>)" .
  moreover have "results (scrape_loop demo_site 5 revisit_state) = []" by code_simp
  moreover from pre have "entry_url (hd (queue revisit_state)) \<in> visited revisit_state" by simp
  ultimately show ?thesis using d ps qs by (intro conjI exI [of _ ps] exI [of _ qs])
qed

text \<open>
  Claim C6: the queue of \<open>scrapeWebsite\<close> is first-in first-out and a page's links are
  appended at the back, one level below the page; hence the depths of the entries taken
  from the queue never decrease, and the same holds for the entries taken followed by those
  still waiting: an entry one level deeper is behind every entry that was in the queue when
  it was found.
\<close>

theorem crawl_breadth_first:
  "sorted (map depth (dequeued (scrape_run env startUrl maxPages))) \<and>
   sorted (map depth (dequeued (scrape_run env startUrl maxPages)
                       @ queue (scrape_run env startUrl maxPages))) \<and>
   (\<exists>new. queue (scrape_page env e st) = queue st @ new \<and>
           (\<forall>x \<in> set new. depth x = depth e + 1))"
proof (intro conjI)
  have init: "sorted (map depth (dequeued (initial_state startUrl) @ queue (initial_state startUrl))) \<and>
     (\<forall>e \<in> set (queue (initial_state startUrl)).
        \<forall>e' \<in> set (queue (initial_state startUrl)). depth e' \<le> Suc (depth e))"
    by (simp add: initial_state_def)
  show all: "sorted (map depth (dequeued (scrape_run env startUrl maxPages)
                       @ queue (scrape_run env startUrl maxPages)))"
    unfolding scrape_run_def using init by (rule scrape_loop_bfs)
  then show "sorted (map depth (dequeued (scrape_run env startUrl maxPages)))"
    by (simp add: sorted_append)
  from scrape_page_effect [of env e st]
  show "\<exists>new. queue (scrape_page env e st) = queue st @ new \<and>
           (\<forall>x \<in> set new. depth x = depth e + 1)"
    by blast
qed

text \<open>Witness for C6: the depths in the order of processing on the small site.\<close>

theorem crawl_breadth_first_witness:
  "map depth (dequeued (scrape_run demo_site ''https://example.com/'' 5)) = [0, 1, 1, 1, 2] \<and>
   sorted (map depth (dequeued (scrape_run demo_site ''https://example.com/'' 5))) \<and>
   map depth (queue (scrape_run demo_site ''https://example.com/'' 1)) = [1, 1, 1]"
proof -
  have d: "map depth (dequeued (scrape_run demo_site ''https://example.com/'' 5)) = [0, 1, 1, 1, 2]"
    by code_simp
  have q: "map depth (queue (scrape_run demo_site ''https://example.com/'' 1)) = [1, 1, 1]"
    by code_simp
  from crawl_breadth_first [of demo_site "''https://example.com/''" 5, THEN conjunct1]
  have "sorted (map depth (dequeued (scrape_run demo_site ''https://example.com/'' 5)))" .
  with d q show ?thesis by (intro conjI)
qed

text \<open>
  Counterexample to claim C8 as stated: the home page of the small site links to
  \<open>/page#section\<close> and \<open>/page#other\<close>.  Both resolve to URLs with a fragment, and the crawl
  ends with an empty queue without \<open>https://example.com/page\<close> ever having been put on it,
  with or without a fragment.
\<close>

theorem fragment_link_not_normalized_cex:
  "demo_href ''/page#section'' ''https://example.com/'' = Some ''https://example.com/page#section'' \<and>
   demo_href ''/page#other'' ''https://example.com/'' = Some ''https://example.com/page#other'' \<and>
   queue (scrape_run demo_site ''https://example.com/'' 5) = [] \<and>
   map entry_url (dequeued (scrape_run demo_site ''https://example.com/'' 5)) =
     [''https://example.com/'', ''https://example.com/a'', ''https://example.com/b'',
      ''https://example.com/a'', ''https://example.com/b'']"
  by code_simp

text \<open>
  Claim C8 (amended): a discovered link whose absolute form contains \<open>#\<close> is not normalized
  but skipped: it leaves the queue as it is, so neither the link nor its fragment-free form
  is enqueued on its account, however many fragments it is seen with; and no entry that was
  ever in the queue, the seed URL aside, contains \<open>#\<close>.
\<close>

theorem fragment_links_skipped:
  "(\<forall>link absoluteUrl. URL_href env link currentUrl = Some absoluteUrl \<and>
        js_includes absoluteUrl ''#'' \<longrightarrow>
        enqueue_link env seen currentUrl d q link = q) \<and>
   (\<forall>e \<in> set (dequeued (scrape_run env startUrl maxPages) @ queue (scrape_run env startUrl maxPages)).
        entry_url e = startUrl \<or> \<not> js_includes (entry_url e) ''#'')"
proof (intro conjI allI impI)
  fix link absoluteUrl
  assume "URL_href env link currentUrl = Some absoluteUrl \<and> js_includes absoluteUrl ''#''"
  then show "enqueue_link env seen currentUrl d q link = q"
    by (simp add: enqueue_link_def split: option.splits)
next
  show "\<forall>e \<in> set (dequeued (scrape_run env startUrl maxPages) @ queue (scrape_run env startUrl maxPages)).
        entry_url e = startUrl \<or> \<not> js_includes (entry_url e) ''#''"
    unfolding scrape_run_def by (rule scrape_loop_no_fragment) (simp add: initial_state_def)
qed

text \<open>Witness for C8: the link \<open>/page#section\<close> of the small site, found on its home page.\<close>

theorem fragment_links_skipped_witness:
  "demo_href ''/page#section'' ''https://example.com/'' = Some ''https://example.com/page#section'' \<and>
   js_includes ''https://example.com/page#section'' ''#'' \<and>
   enqueue_link demo_site {''https://example.com/''} ''https://example.com/'' 0 [] ''/page#section'' = [] \<and>
   \<not> js_includes ''https://example.com/a'' ''#''"
proof -
  have a: "URL_href demo_site ''/page#section'' ''https://example.com/''
             = Some ''https://example.com/page#section''"
    by code_simp
  have b: "js_includes ''https://example.com/page#section'' ''#''" by code_simp
  have c: "\<lparr>entry_url = ''https://example.com/a'', depth = 1\<rparr>
             \<in> set (dequeued (scrape_run demo_site ''https://example.com/'' 5)
                     @ queue (scrape_run demo_site ''https://example.com/'' 5))"
    by code_simp
  have e: "demo_href ''/page#section'' ''https://example.com/'' = Some ''https://example.com/page#section''"
    by code_simp
  note all = fragment_links_skipped [of demo_site "''https://example.com/''"
      "{''https://example.com/''}" 0 "[]" "''https://example.com/''" 5]
  from a b have ab: "URL_href demo_site ''/page#section'' ''https://example.com/''
             = Some ''https://example.com/page#section'' \<and>
           js_includes ''https://example.com/page#section'' ''#''" ..
  from all [THEN conjunct1, THEN spec, THEN spec, THEN mp, OF ab]
  have skipped: "enqueue_link demo_site {''https://example.com/''} ''https://example.com/'' 0 []
          ''/page#section'' = []" .
  from all [THEN conjunct2, THEN bspec, OF c]
  have "''https://example.com/a'' = ''https://example.com/'' \<or>
        \<not> js_includes ''https://example.com/a'' ''#''"
    by simp
  then have "\<not> js_includes ''https://example.com/a'' ''#''" by simp
  with e b skipped show ?thesis by (intro conjI)
qed

text \<open>
  When the browser and its page were set up and the loop of \<open>scrapeWebsiteTask\<close> ends
  without a single page, the task returns \<open>success: true\<close>, an empty list of pages,
  \<open>totalPages = 0\<close> and \<open>totalContent = 0\<close>, and the unguarded quotient
  \<open>Math.round(0 / 0)\<close> as \<open>averageContentLength\<close>.
\<close>

lemma scrapeWebsiteTask_no_pages:
  assumes "initializeBrowser env (siteOwner payload) = None"
    and "page_setup_error env = None"
    and "t_results (task_run env payload) = []"
  shows "scrapeWebsiteTask env payload =
     \<lparr>task_success = True, task_pages = Some [],
      task_stats = Some \<lparr>totalPages = 0, totalContent = 0, averageContentLength = NaN\<rparr>,
      task_error = None\<rparr>"
  using assms by (simp add: scrapeWebsiteTask_def content_total_def js_div_def)

text \<open>
  Claim C9 fails in one field.  For a site of which no page can be loaded the task returns
  \<open>success: true\<close>, no pages, \<open>totalPages = 0\<close> and \<open>totalContent = 0\<close>, as the claim says,
  but \<open>averageContentLength\<close> is \<open>NaN\<close>: the average divides by the number of pages
  without a test for zero.
\<close>

theorem scrapeWebsiteTask_zero_pages_NaN:
  "scrapeWebsiteTask unreachable_site demo_task_payload =
     \<lparr>task_success = True, task_pages = Some [],
      task_stats = Some \<lparr>totalPages = 0, totalContent = 0, averageContentLength = NaN\<rparr>,
      task_error = None\<rparr>"
proof -
  have a: "initializeBrowser unreachable_site (siteOwner demo_task_payload) = None"
    by (simp add: initializeBrowser_def unreachable_site_def demo_task_payload_def)
  have b: "page_setup_error unreachable_site = None"
    by (simp add: unreachable_site_def)
  have c: "t_results (task_run unreachable_site demo_task_payload) = []"
    by code_simp
  from scrapeWebsiteTask_no_pages [OF a b c] show ?thesis .
qed

end
